theory Spec2Isabelle
  imports Main "HOL-Library.AList"
begin

section \<open>Conventions of the embedding\<close>

text \<open>
  The plugin is TypeScript. A JavaScript string is modelled by a \<^typ>\<open>string\<close> whose
  characters stand for UTF-16 code units below 256; numbers that the code uses as
  integers (millisecond time stamps, byte counts) are \<^typ>\<open>int\<close>; \<open>Date.now()\<close> is an
  explicit argument \<open>now\<close>. A JavaScript \<open>Map\<close> keeps its keys in insertion order, so it
  is an association list with distinct keys: \<open>Map.set\<close> is \<^const>\<open>AList.update\<close>
  (overwrite in place, otherwise append), \<open>Map.delete\<close> is \<^const>\<open>AList.delete\<close> and
  \<open>Map.get\<close> is \<^const>\<open>map_of\<close>.
\<close>

text \<open>
  \<open>new Map(pairs)\<close>: the pairs are entered from left to right, so a repeated key keeps
  the position of its first pair and the value of its last.
\<close>

definition newMap :: "('k \<times> 'v) list \<Rightarrow> ('k \<times> 'v) list" where
  "newMap pairs = foldl (\<lambda>m (k, v). AList.update k v m) [] pairs"

text \<open>
  The own keys of a JavaScript object come in a fixed order: first the keys that are
  array indices (the decimal numerals without a leading zero whose value is below
  \<open>2 ^ 32 - 1\<close>), in ascending numeric order, then the other strings in the order of
  their creation. \<open>objectEntries m\<close> is what \<open>Object.entries\<close> returns for the object
  that \<open>Object.fromEntries\<close> builds from the map \<open>m\<close>, also after a round trip through
  \<open>JSON.stringify\<close> and \<open>JSON.parse\<close>.
\<close>

definition isDigit :: "char \<Rightarrow> bool" where
  "isDigit c = (48 \<le> (of_char c :: nat) \<and> (of_char c :: nat) \<le> 57)"

definition digitsValue :: "string \<Rightarrow> nat" where
  "digitsValue k = foldl (\<lambda>a c. 10 * a + ((of_char c :: nat) - 48)) 0 k"

definition isArrayIndex :: "string \<Rightarrow> bool" where
  "isArrayIndex k =
     (k \<noteq> [] \<and> list_all isDigit k
      \<and> (if hd k = CHR ''0'' then length k = 1 else True)
      \<and> digitsValue k < 4294967295)"

definition objectEntries :: "(string \<times> 'v) list \<Rightarrow> (string \<times> 'v) list" where
  "objectEntries m =
     sort_key (\<lambda>e. digitsValue (fst e)) (filter (\<lambda>e. isArrayIndex (fst e)) m)
       @ filter (\<lambda>e. \<not> isArrayIndex (fst e)) m"

section \<open>ImageCache (src/src/utils/ImageCache.ts, the first class of the file)\<close>

record CacheEntry =
  data :: string
  timestamp :: int
  size_bytes :: int

type_synonym CacheMap = "(string \<times> CacheEntry) list"

text \<open>
  The static fields of the class, together with the part of the browser that the class
  talks to: \<open>storage\<close> is the item \<open>localStorage[CACHE_KEY]\<close> (the entries of the saved
  object \<open>data\<close>, in the order of its keys, and the time of the save), \<open>storage_writable\<close> tells whether \<open>localStorage.setItem\<close> succeeds (it
  throws when the quota is exceeded, and \<open>saveCache\<close> catches that), \<open>saveTimeout\<close>
  tells whether the debounce timer is armed.
\<close>

record ImageCache =
  imageCache :: CacheMap
  dirty :: bool
  saveTimeout :: bool
  storage :: "(CacheMap \<times> int) option"
  storage_writable :: bool

definition CACHE_EXPIRY :: int where
  "CACHE_EXPIRY = 12 * 60 * 60 * 1000"

definition MAX_CACHE_SIZE :: int where
  "MAX_CACHE_SIZE = 50 * 1024 * 1024"

text \<open>
  \<open>MAX_CACHE_SIZE * 0.7\<close> is a product of doubles: \<open>25 * 0.7\<close> rounds to \<open>17.5\<close> and the
  factor \<open>2 ^ 21\<close> is exact, so the product is the integer \<open>36700160\<close>.
\<close>

definition targetSize :: int where
  "targetSize = 36700160"

text \<open>\<open>new Blob([data]).size\<close>: the length of the UTF-8 encoding.\<close>

definition blobSize :: "string \<Rightarrow> int" where
  "blobSize s = (\<Sum>c\<leftarrow>s. if (of_char c :: nat) < 128 then 1 else 2)"

definition getTotalCacheSize :: "CacheMap \<Rightarrow> int" where
  "getTotalCacheSize m = (\<Sum>e\<leftarrow>m. size_bytes (snd e))"

definition saveCache :: "int \<Rightarrow> ImageCache \<Rightarrow> ImageCache" where
  "saveCache now s =
     (if \<not> dirty s then s
      else if storage_writable s
        then s\<lparr>storage := Some (objectEntries (imageCache s), now), dirty := False\<rparr>
        else s)"

definition scheduleSave :: "ImageCache \<Rightarrow> ImageCache" where
  "scheduleSave s = s\<lparr>saveTimeout := True\<rparr>"

text \<open>The callback of the timer armed by \<open>scheduleSave\<close>.\<close>

definition saveTimerFires :: "int \<Rightarrow> ImageCache \<Rightarrow> ImageCache" where
  "saveTimerFires now s =
     (if saveTimeout s then (saveCache now s)\<lparr>saveTimeout := False\<rparr> else s)"

text \<open>
  The loop of \<open>cleanupOldCache\<close> over the entries sorted by time stamp. The map
  is the live one: \<open>getTotalCacheSize()\<close> is computed again in every round, after the
  deletions of the rounds before, and \<open>freedSize\<close> is subtracted from that.
\<close>

fun cleanupLoop :: "CacheMap \<Rightarrow> int \<Rightarrow> CacheMap \<Rightarrow> CacheMap" where
  "cleanupLoop [] freedSize m = m"
| "cleanupLoop ((key, entry) # entries) freedSize m =
     (if getTotalCacheSize m - freedSize \<le> targetSize then m
      else cleanupLoop entries (freedSize + size_bytes entry) (AList.delete key m))"

definition cleanupOldCache :: "int \<Rightarrow> ImageCache \<Rightarrow> ImageCache" where
  "cleanupOldCache now s =
     (let entries = sort_key (\<lambda>e. timestamp (snd e)) (imageCache s)
      in saveCache now (s\<lparr>imageCache := cleanupLoop entries 0 (imageCache s)\<rparr>))"

text \<open>
  \<open>init\<close>: a stored snapshot younger than \<open>CACHE_EXPIRY\<close> replaces the live map; without
  an item in the storage, or with an older one, the live map stays.
\<close>

definition ImageCache_init :: "int \<Rightarrow> ImageCache \<Rightarrow> ImageCache" where
  "ImageCache_init now s =
     (case storage s of
        None \<Rightarrow> s
      | Some (saved, savedAt) \<Rightarrow>
          if now - savedAt < CACHE_EXPIRY then s\<lparr>imageCache := newMap saved\<rparr> else s)"

definition ImageCache_get :: "int \<Rightarrow> string \<Rightarrow> ImageCache \<Rightarrow> string option \<times> ImageCache" where
  "ImageCache_get now key s =
     (case map_of (imageCache s) key of
        None \<Rightarrow> (None, s)
      | Some cached \<Rightarrow>
          if now - timestamp cached > CACHE_EXPIRY
          then (None, saveCache now (s\<lparr>imageCache := AList.delete key (imageCache s)\<rparr>))
          else (Some (data cached), s))"

definition ImageCache_set :: "int \<Rightarrow> string \<Rightarrow> string \<Rightarrow> ImageCache \<Rightarrow> ImageCache" where
  "ImageCache_set now key d s =
     (let dataSize = blobSize d;
          s1 = (if getTotalCacheSize (imageCache s) + dataSize > MAX_CACHE_SIZE
                then cleanupOldCache now s else s);
          s2 = s1\<lparr>imageCache :=
                 AList.update key \<lparr>data = d, timestamp = now, size_bytes = dataSize\<rparr>
                   (imageCache s1)\<rparr>
      in scheduleSave (s2\<lparr>dirty := True\<rparr>))"

definition ImageCache_has :: "int \<Rightarrow> string \<Rightarrow> ImageCache \<Rightarrow> bool \<times> ImageCache" where
  "ImageCache_has now key s =
     (case map_of (imageCache s) key of
        None \<Rightarrow> (False, s)
      | Some cached \<Rightarrow>
          if now - timestamp cached > CACHE_EXPIRY
          then (False, saveCache now (s\<lparr>imageCache := AList.delete key (imageCache s)\<rparr>))
          else (True, s))"

definition ImageCache_delete :: "string \<Rightarrow> ImageCache \<Rightarrow> ImageCache" where
  "ImageCache_delete key s =
     scheduleSave (s\<lparr>imageCache := AList.delete key (imageCache s), dirty := True\<rparr>)"

definition ImageCache_clear :: "ImageCache \<Rightarrow> ImageCache" where
  "ImageCache_clear s = s\<lparr>imageCache := [], storage := None\<rparr>"

text \<open>The cache of a fresh session: the static initialisers of the class.\<close>

definition emptyCache :: ImageCache where
  "emptyCache = \<lparr>imageCache = [], dirty = False, saveTimeout = False,
                  storage = None, storage_writable = True\<rparr>"

subsection \<open>Sequences of calls\<close>

text \<open>
  A client's calls on the cache between two moments of interest, each with the time at
  which it runs: the public methods \<open>init\<close>, \<open>get\<close>, \<open>has\<close>, \<open>set\<close>, \<open>delete\<close> and
  \<open>clear\<close>, and the debounce timer firing (\<open>OpSaveTimer\<close>).
\<close>

datatype CacheOp =
    OpInit
  | OpGet string
  | OpHas string
  | OpSet string string
  | OpDelete string
  | OpClear
  | OpSaveTimer

fun applyOp :: "int \<times> CacheOp \<Rightarrow> ImageCache \<Rightarrow> ImageCache" where
  "applyOp (now, OpInit) s = ImageCache_init now s"
| "applyOp (now, OpGet key) s = snd (ImageCache_get now key s)"
| "applyOp (now, OpHas key) s = snd (ImageCache_has now key s)"
| "applyOp (now, OpSet key d) s = ImageCache_set now key d s"
| "applyOp (now, OpDelete key) s = ImageCache_delete key s"
| "applyOp (now, OpClear) s = ImageCache_clear s"
| "applyOp (now, OpSaveTimer) s = saveTimerFires now s"

fun runOps :: "(int \<times> CacheOp) list \<Rightarrow> ImageCache \<Rightarrow> ImageCache" where
  "runOps [] s = s"
| "runOps (c # cs) s = runOps cs (applyOp c s)"

text \<open>The call is \<open>delete(k)\<close>, \<open>clear()\<close> or \<open>set(k, _)\<close>.\<close>

fun writesKey :: "string \<Rightarrow> CacheOp \<Rightarrow> bool" where
  "writesKey k (OpSet key d) = (key = k)"
| "writesKey k (OpDelete key) = (key = k)"
| "writesKey k OpClear = True"
| "writesKey k _ = False"

text \<open>The call is a \<open>set\<close> that runs \<open>cleanupOldCache\<close> in state \<open>s\<close>.\<close>

fun opEvicts :: "CacheOp \<Rightarrow> ImageCache \<Rightarrow> bool" where
  "opEvicts (OpSet key d) s = (getTotalCacheSize (imageCache s) + blobSize d > MAX_CACHE_SIZE)"
| "opEvicts _ s = False"

text \<open>
  The call, at time \<open>t\<close> in state \<open>s\<close>, is an \<open>init\<close> that replaces the live map by a
  stored snapshot in which the key \<open>k\<close> has not the entry it has in the live map.
\<close>

fun opReloadsWithout :: "string \<Rightarrow> int \<Rightarrow> CacheOp \<Rightarrow> ImageCache \<Rightarrow> bool" where
  "opReloadsWithout k t OpInit s =
     (case storage s of
        None \<Rightarrow> False
      | Some (saved, savedAt) \<Rightarrow>
          t - savedAt < CACHE_EXPIRY \<and> map_of (newMap saved) k \<noteq> map_of (imageCache s) k)"
| "opReloadsWithout k t _ s = False"

text \<open>
  A sequence of calls admissible for the round trip of key \<open>k\<close> up to time \<open>now\<close>: no call
  writes \<open>k\<close>, no call runs the eviction, no \<open>init\<close> reloads a snapshot without the
  entry of \<open>k\<close>, no call is later than \<open>now\<close>.
\<close>

fun quietFor :: "string \<Rightarrow> int \<Rightarrow> (int \<times> CacheOp) list \<Rightarrow> ImageCache \<Rightarrow> bool" where
  "quietFor k now [] s = True"
| "quietFor k now ((t, c) # cs) s =
     (\<not> writesKey k c \<and> \<not> opEvicts c s \<and> \<not> opReloadsWithout k t c s \<and> t \<le> now
      \<and> quietFor k now cs (applyOp (t, c) s))"

section \<open>SyncService (src/src/services/SearchService.ts, the second module of the file)\<close>

text \<open>
  \<open>MinioObject\<close> and \<open>SyncChanges\<close> of the gallery types (src/unnamed/part_006): \<open>lastModified\<close> is optional; a \<open>Date\<close> is
  modelled by its time value \<open>getTime()\<close>.
\<close>

record MinioObject =
  name :: string
  lastModified :: "int option"

record SyncChanges =
  hasChanges :: bool
  added :: "MinioObject list"
  deleted :: "string list"
  modified :: "MinioObject list"

text \<open>A thrown or rejected JavaScript error, by its message.\<close>

datatype JsError = Error string

text \<open>
  \<open>map.get(name)\<close> on a map whose values may be \<open>undefined\<close>: the result is
  \<open>undefined\<close> for a missing key and for a key that holds \<open>undefined\<close> alike.
\<close>

definition mapGet :: "('k \<times> 'v option) list \<Rightarrow> 'k \<Rightarrow> 'v option" where
  "mapGet m k = (case map_of m k of None \<Rightarrow> None | Some v \<Rightarrow> v)"

definition mapHas :: "('k \<times> 'v) list \<Rightarrow> 'k \<Rightarrow> bool" where
  "mapHas m k = (map_of m k \<noteq> None)"

text \<open>
  \<open>added.push(remote.find(obj => obj.name === name)!)\<close>: the name is a key of
  \<open>remoteMap\<close>, so \<open>find\<close> succeeds (lemma \<open>find_remote_key\<close>); the branch for
  \<open>undefined\<close> is there to keep the function total.
\<close>

definition pushFound :: "MinioObject list \<Rightarrow> string \<Rightarrow> MinioObject list \<Rightarrow> MinioObject list" where
  "pushFound remote n acc =
     (case List.find (\<lambda>obj. name obj = n) remote of Some obj \<Rightarrow> acc @ [obj] | None \<Rightarrow> acc)"

text \<open>One round of the first loop of \<open>detectChanges\<close>, over the entries of \<open>remoteMap\<close>.\<close>

definition detectRemote ::
  "(string \<times> int option) list \<Rightarrow> MinioObject list \<Rightarrow> SyncChanges \<Rightarrow> string \<times> int option \<Rightarrow> SyncChanges" where
  "detectRemote localMap remote ch entry =
     (case entry of (n, remoteModified) \<Rightarrow>
        (case mapGet localMap n of
           None \<Rightarrow> ch\<lparr>added := pushFound remote n (added ch), hasChanges := True\<rparr>
         | Some localTime \<Rightarrow>
             if remoteModified \<noteq> Some localTime
             then ch\<lparr>modified := pushFound remote n (modified ch), hasChanges := True\<rparr>
             else ch))"

text \<open>One round of the second loop, over the keys of \<open>localMap\<close>.\<close>

definition detectLocal :: "(string \<times> int option) list \<Rightarrow> SyncChanges \<Rightarrow> string \<Rightarrow> SyncChanges" where
  "detectLocal remoteMap ch n =
     (if \<not> mapHas remoteMap n then ch\<lparr>deleted := deleted ch @ [n], hasChanges := True\<rparr> else ch)"

definition detectChanges :: "MinioObject list \<Rightarrow> MinioObject list \<Rightarrow> SyncChanges" where
  "detectChanges local remote =
     (let localMap = newMap (map (\<lambda>obj. (name obj, lastModified obj)) local);
          remoteMap = newMap (map (\<lambda>obj. (name obj, lastModified obj)) remote);
          ch0 = \<lparr>hasChanges = False, added = [], deleted = [], modified = []\<rparr>;
          ch1 = foldl (detectRemote localMap remote) ch0 remoteMap
      in foldl (detectLocal remoteMap) ch1 (map fst localMap))"

text \<open>
  The object stream of \<open>client.listObjects\<close>, as the events it emits. A stream that
  emits neither \<open>end\<close> nor \<open>error\<close> leaves the promise of \<open>fetchRemoteObjects\<close> pending
  for ever: the result is \<open>None\<close>. The first of \<open>end\<close> and \<open>error\<close> settles the promise.
\<close>

datatype StreamEvent = OnData MinioObject | OnEnd | OnError JsError

text \<open>The sort key of \<open>fetchRemoteObjects\<close>: \<open>lastModified?.getTime() || 0\<close>.\<close>

definition timeOrZero :: "MinioObject \<Rightarrow> int" where
  "timeOrZero obj = (case lastModified obj of None \<Rightarrow> 0 | Some t \<Rightarrow> t)"

text \<open>
  \<open>objects.sort((a, b) => key b - key a)\<close>: descending in the key; the sort of
  JavaScript is stable, as \<^const>\<open>sort_key\<close> is.
\<close>

definition sortNewestFirst :: "MinioObject list \<Rightarrow> MinioObject list" where
  "sortNewestFirst objects = sort_key (\<lambda>obj. - timeOrZero obj) objects"

fun fetchLoop :: "MinioObject list \<Rightarrow> StreamEvent list \<Rightarrow> (JsError + MinioObject list) option" where
  "fetchLoop objects [] = None"
| "fetchLoop objects (OnData obj # evs) =
     fetchLoop (if name obj \<noteq> [] then objects @ [\<lparr>name = name obj, lastModified = lastModified obj\<rparr>]
                else objects) evs"
| "fetchLoop objects (OnEnd # evs) = Some (Inr (sortNewestFirst objects))"
| "fetchLoop objects (OnError e # evs) = Some (Inl e)"

definition fetchRemoteObjects :: "StreamEvent list \<Rightarrow> (JsError + MinioObject list) option" where
  "fetchRemoteObjects evs = fetchLoop [] evs"

text \<open>
  \<open>sync\<close>: the cache is the static \<open>ImageCache\<close>. The result \<open>None\<close> is a call that never
  returns; \<open>Some (Inl e)\<close> is the error \<open>e\<close> thrown again to the caller.
\<close>

definition sync ::
  "StreamEvent list \<Rightarrow> MinioObject list \<Rightarrow> ImageCache
     \<Rightarrow> (JsError + (MinioObject list \<times> SyncChanges)) option \<times> ImageCache" where
  "sync evs localObjects cache =
     (case fetchRemoteObjects evs of
        None \<Rightarrow> (None, cache)
      | Some (Inl e) \<Rightarrow> (Some (Inl e), cache)
      | Some (Inr remoteObjects) \<Rightarrow>
          (let changes = detectChanges localObjects remoteObjects;
               cache' = (if hasChanges changes
                         then foldl (\<lambda>c objectName. ImageCache_delete objectName c) cache (deleted changes)
                         else cache)
           in (Some (Inr (remoteObjects, changes)), cache')))"

text \<open>
  The tests of the first loop on a remote object: \<open>localMap.get(name)\<close> is
  \<open>undefined\<close>; it is a time other than the remote one.
\<close>

definition seenAdded :: "(string \<times> int option) list \<Rightarrow> MinioObject \<Rightarrow> bool" where
  "seenAdded localMap obj = (mapGet localMap (name obj) = None)"

definition seenModified :: "(string \<times> int option) list \<Rightarrow> MinioObject \<Rightarrow> bool" where
  "seenModified localMap obj =
     (case mapGet localMap (name obj) of None \<Rightarrow> False | Some t \<Rightarrow> lastModified obj \<noteq> Some t)"

section \<open>File utilities (src/unnamed/part_000)\<close>

text \<open>\<open>String.prototype.startsWith\<close>, \<open>endsWith\<close> and \<open>includes\<close>.\<close>

definition startsWith :: "string \<Rightarrow> string \<Rightarrow> bool" where
  "startsWith s p = (take (length p) s = p)"

definition endsWith :: "string \<Rightarrow> string \<Rightarrow> bool" where
  "endsWith s p = (length p \<le> length s \<and> drop (length s - length p) s = p)"

fun includesStr :: "string \<Rightarrow> string \<Rightarrow> bool" where
  "includesStr [] p = (p = [])"
| "includesStr (c # s) p = (startsWith (c # s) p \<or> includesStr s p)"

text \<open>
  \<open>toLowerCase\<close> and \<open>toUpperCase\<close> on one code unit below 256: the letters of ASCII
  and of Latin-1 (the multiplication and division signs lie between the letters and have
  no case). The upper-case forms of \<open>0xB5\<close>, \<open>0xDF\<close> and \<open>0xFF\<close> are not code units below
  256.
\<close>

definition toLowerChar :: "char \<Rightarrow> char" where
  "toLowerChar c =
     (let n = (of_char c :: nat)
      in if (65 \<le> n \<and> n \<le> 90) \<or> (192 \<le> n \<and> n \<le> 222 \<and> n \<noteq> 215) then char_of (n + 32) else c)"

definition toLowerCase :: "string \<Rightarrow> string" where
  "toLowerCase s = map toLowerChar s"

definition IMAGE_EXTENSIONS :: "string list" where
  "IMAGE_EXTENSIONS = [''.jpg'', ''.jpeg'', ''.png'', ''.gif'', ''.webp'', ''.bmp'', ''.svg'']"

definition isImageFile :: "string \<Rightarrow> bool" where
  "isImageFile filename = list_ex (\<lambda>ext. endsWith (toLowerCase filename) ext) IMAGE_EXTENSIONS"

section \<open>Regular expressions of the host (\<open>new RegExp(pattern, 'i')\<close> and \<open>test\<close>)\<close>

text \<open>
  The regular expressions of JavaScript are not code of the plugin. The embedding gives
  their meaning for the patterns built from ordinary characters, the dot and the star,
  which are the patterns that the wildcard conversion produces from a text without
  other syntax characters; for every other pattern the constructor is a parameter of
  the host (\<open>regExpOther\<close> below).
\<close>

text \<open>The syntax characters \<open>^ $ \ . * + ? ( ) [ ] { } |\<close>.\<close>

definition isSyntaxCharacter :: "char \<Rightarrow> bool" where
  "isSyntaxCharacter c = (c \<in> set (CHR 0x5C # ''^$.*+?()[]{}|''))"

definition inFragment :: "string \<Rightarrow> bool" where
  "inFragment p = list_all (\<lambda>c. \<not> isSyntaxCharacter c \<or> c = CHR ''.'' \<or> c = CHR ''*'') p"

datatype Atom = Lit char | AnyChar

datatype Piece = One Atom | Star Atom

definition atomOf :: "char \<Rightarrow> Atom" where
  "atomOf c = (if c = CHR ''.'' then AnyChar else Lit c)"

text \<open>
  The parse of a pattern of the fragment; \<open>None\<close> is the syntax error of a star that has
  nothing to repeat (at the start of the pattern or after another star).
\<close>

fun parseFragment :: "string \<Rightarrow> Piece list option" where
  "parseFragment [] = Some []"
| "parseFragment [c] = (if c = CHR ''*'' then None else Some [One (atomOf c)])"
| "parseFragment (c # d # cs) =
     (if c = CHR ''*'' then None
      else if d = CHR ''*'' then map_option (\<lambda>ps. Star (atomOf c) # ps) (parseFragment cs)
      else map_option (\<lambda>ps. One (atomOf c) # ps) (parseFragment (d # cs)))"

text \<open>
  The flag \<open>i\<close>: two code units match when their canonical forms, the upper-case
  forms, are equal. Below 256 these are the letters of ASCII and of Latin-1.
\<close>

definition canonicalize :: "char \<Rightarrow> char" where
  "canonicalize c =
     (let n = (of_char c :: nat)
      in if (97 \<le> n \<and> n \<le> 122) \<or> (224 \<le> n \<and> n \<le> 254 \<and> n \<noteq> 247) then char_of (n - 32) else c)"

text \<open>The dot matches every code unit but the line terminators (below 256: LF and CR).\<close>

fun atomMatches :: "Atom \<Rightarrow> char \<Rightarrow> bool" where
  "atomMatches (Lit a) c = (canonicalize a = canonicalize c)"
| "atomMatches AnyChar c = (c \<noteq> CHR 0x0A \<and> c \<noteq> CHR 0x0D)"

text \<open>The pieces match a prefix of the string.\<close>

fun matchHere :: "Piece list \<Rightarrow> string \<Rightarrow> bool" where
  "matchHere [] s = True"
| "matchHere (One a # ps) [] = False"
| "matchHere (One a # ps) (c # s) = (atomMatches a c \<and> matchHere ps s)"
| "matchHere (Star a # ps) [] = matchHere ps []"
| "matchHere (Star a # ps) (c # s) =
     (matchHere ps (c # s) \<or> (atomMatches a c \<and> matchHere (Star a # ps) s))"

text \<open>\<open>regex.test(s)\<close> without the flags \<open>g\<close> and \<open>y\<close>: a match may start anywhere.\<close>

fun regexTest :: "Piece list \<Rightarrow> string \<Rightarrow> bool" where
  "regexTest ps [] = matchHere ps []"
| "regexTest ps (c # s) = (matchHere ps (c # s) \<or> regexTest ps s)"

section \<open>The host of the plugin\<close>

text \<open>
  What the services receive from outside: the URL generator handed to the
  \<open>SearchService\<close>, the translation function \<open>t\<close> of the i18n module, the regular
  expression constructor outside the fragment above, the message of the syntax error
  for a star with nothing to repeat, and the effect of \<open>ImageGrid.renderImages\<close> on the
  URL cache together with the error it throws, if any.
\<close>

record Host =
  generateUrl :: "string \<Rightarrow> string"
  translate :: "string \<Rightarrow> string"
  regExpOther :: "string \<Rightarrow> JsError + (string \<Rightarrow> bool)"
  nothingToRepeat :: "string \<Rightarrow> string"
  renderImages :: "MinioObject list \<Rightarrow> ImageCache \<Rightarrow> JsError option \<times> ImageCache"

definition newRegExp :: "Host \<Rightarrow> string \<Rightarrow> JsError + (string \<Rightarrow> bool)" where
  "newRegExp h p =
     (if inFragment p
      then (case parseFragment p of
              None \<Rightarrow> Inl (Error (nothingToRepeat h p))
            | Some ps \<Rightarrow> Inr (regexTest ps))
      else regExpOther h p)"

section \<open>SearchService (src/src/services/SearchService.ts, the first module of the file)\<close>

record SearchResult =
  matchedObjects :: "MinioObject list"
  totalCount :: nat

type_synonym UrlMap = "(string \<times> string) list"

text \<open>\<open>/[()[?+]/.test(pattern)\<close>.\<close>

definition hasSpecialChars :: "string \<Rightarrow> bool" where
  "hasSpecialChars pattern = list_ex (\<lambda>c. c \<in> set ''()[?+'') pattern"

definition convertWildcardToRegex :: "string \<Rightarrow> string" where
  "convertWildcardToRegex pattern =
     (if \<not> hasSpecialChars pattern then
        (if startsWith pattern ''*'' \<and> endsWith pattern ''*''
         then ''.*'' @ butlast (tl pattern) @ ''.*''
         else if startsWith pattern ''*'' then tl pattern @ ''.*''
         else if endsWith pattern ''*'' then ''.*'' @ butlast pattern
         else pattern)
      else pattern)"

text \<open>
  The body of the loop of \<open>regexSearch\<close> and of \<open>textSearch\<close>, which differ in the test
  on the URL only. \<open>cachedUrl || generateUrl(name)\<close> and \<open>!cachedUrl\<close> take the empty
  string for a missing one.
\<close>

definition searchStep ::
  "Host \<Rightarrow> (string \<Rightarrow> bool) \<Rightarrow> MinioObject list \<times> UrlMap \<Rightarrow> MinioObject \<Rightarrow> MinioObject list \<times> UrlMap" where
  "searchStep h test acc obj =
     (case acc of (matched, urls) \<Rightarrow>
        if \<not> isImageFile (name obj) then (matched, urls)
        else
          (let cachedUrl = (case map_of urls (name obj) of None \<Rightarrow> [] | Some u \<Rightarrow> u);
               url = (if cachedUrl \<noteq> [] then cachedUrl else generateUrl h (name obj))
           in if test url
              then (matched @ [obj],
                    if cachedUrl = [] then AList.update (name obj) url urls else urls)
              else (matched, urls)))"

text \<open>
  \<open>regexSearch\<close>: only the constructor of the regular expression throws inside the
  \<open>try\<close>; \<open>handleError\<close> writes to the console and returns.
\<close>

definition regexSearch ::
  "Host \<Rightarrow> MinioObject list \<Rightarrow> string \<Rightarrow> UrlMap \<Rightarrow> (JsError + MinioObject list) \<times> UrlMap" where
  "regexSearch h objects searchText urls =
     (case newRegExp h (convertWildcardToRegex searchText) of
        Inl (Error errorMessage) \<Rightarrow>
          (Inl (Error (translate h ''Invalid regex pattern'' @ '': '' @ errorMessage)), urls)
      | Inr test \<Rightarrow>
          (case foldl (searchStep h test) ([], urls) objects of
             (matched, urls') \<Rightarrow> (Inr matched, urls')))"

definition textSearch ::
  "Host \<Rightarrow> MinioObject list \<Rightarrow> string \<Rightarrow> UrlMap \<Rightarrow> MinioObject list \<times> UrlMap" where
  "textSearch h objects searchText urls =
     (let lowerSearchText = toLowerCase searchText
      in foldl (searchStep h (\<lambda>url. includesStr (toLowerCase url) lowerSearchText)) ([], urls) objects)"

text \<open>White space of \<open>String.prototype.trim\<close> below 256: TAB to CR, space, no-break space.\<close>

definition isWhiteSpace :: "char \<Rightarrow> bool" where
  "isWhiteSpace c = (let n = (of_char c :: nat) in (9 \<le> n \<and> n \<le> 13) \<or> n = 32 \<or> n = 160)"

text \<open>\<open>s.trim() === ''\<close>.\<close>

definition trimIsEmpty :: "string \<Rightarrow> bool" where
  "trimIsEmpty s = list_all isWhiteSpace s"

definition search ::
  "Host \<Rightarrow> MinioObject list \<Rightarrow> string \<Rightarrow> bool \<Rightarrow> UrlMap \<Rightarrow> (JsError + SearchResult) \<times> UrlMap" where
  "search h objects searchText useRegex urls =
     (if trimIsEmpty searchText
      then (Inr \<lparr>matchedObjects = objects, totalCount = length objects\<rparr>, urls)
      else if useRegex then
        (case regexSearch h objects searchText urls of
           (Inl e, urls') \<Rightarrow> (Inl e, urls')
         | (Inr matched, urls') \<Rightarrow>
             (Inr \<lparr>matchedObjects = matched, totalCount = length matched\<rparr>, urls'))
      else
        (case textSearch h objects searchText urls of
           (matched, urls') \<Rightarrow>
             (Inr \<lparr>matchedObjects = matched, totalCount = length matched\<rparr>, urls')))"

subsection \<open>The test of \<open>regexSearch\<close> on one URL, and the words of the specification\<close>

text \<open>
  \<open>new RegExp(convertWildcardToRegex(searchText), 'i').test(url)\<close>, as \<open>regexSearch\<close>
  composes it; \<open>None\<close> when the constructor throws.
\<close>

definition regexSearchTest :: "Host \<Rightarrow> string \<Rightarrow> string \<Rightarrow> bool option" where
  "regexSearchTest h searchText url =
     (case newRegExp h (convertWildcardToRegex searchText) of
        Inl e \<Rightarrow> None
      | Inr test \<Rightarrow> Some (test url))"

text \<open>The URL that the loop of a search tests for an object name.\<close>

definition urlFor :: "Host \<Rightarrow> UrlMap \<Rightarrow> string \<Rightarrow> string" where
  "urlFor h urls n =
     (let cachedUrl = (case map_of urls n of None \<Rightarrow> [] | Some u \<Rightarrow> u)
      in if cachedUrl \<noteq> [] then cachedUrl else generateUrl h n)"

text \<open>A text without syntax characters of regular expressions.\<close>

definition plainText :: "string \<Rightarrow> bool" where
  "plainText x = list_all (\<lambda>c. \<not> isSyntaxCharacter c) x"

text \<open>The URL contains the text, letter case ignored.\<close>

definition containsIgnoringCase :: "string \<Rightarrow> string \<Rightarrow> bool" where
  "containsIgnoringCase url x = includesStr (map canonicalize url) (map canonicalize x)"

text \<open>The pieces of a text taken literally.\<close>

definition literals :: "string \<Rightarrow> Piece list" where
  "literals x = map (\<lambda>c. One (Lit c)) x"

section \<open>MinioGalleryView (src/unnamed/part_005, the second class of the file)\<close>

record GalleryState =
  remoteObjects :: "MinioObject list"
  visibleImages :: "MinioObject list"
  isSearching :: bool
  savedSearchTerm :: string
  useRegexSearch :: bool
  currentPreviewIndex :: "nat option"
  isLoading :: bool

text \<open>
  The view: its \<open>state\<close>, \<open>lastLoadTime\<close>, the bucket of its settings, the static
  \<open>ImageCache\<close>, the URL map of its \<open>SearchService\<close>, the image grid (the objects it was
  last asked to render; \<open>None\<close> when there is no grid), the texts of the loading elements
  left in the container, and the notices shown so far.
\<close>

record MinioGalleryView =
  state :: GalleryState
  lastLoadTime :: int
  bucket :: string
  cache :: ImageCache
  allImageUrls :: UrlMap
  imageGrid :: "MinioObject list option"
  loadingTexts :: "string list"
  notices :: "string list"

text \<open>The private \<open>isImageFile\<close> of the view, with its own list of extensions.\<close>

definition view_isImageFile :: "string \<Rightarrow> bool" where
  "view_isImageFile filename =
     list_ex (\<lambda>ext. endsWith (toLowerCase filename) ext)
       [''.jpg'', ''.jpeg'', ''.png'', ''.gif'', ''.webp'']"

text \<open>The \<open>catch\<close> and \<open>finally\<close> of \<open>loadGallery\<close>.\<close>

definition loadFailed :: "Host \<Rightarrow> MinioGalleryView \<Rightarrow> MinioGalleryView" where
  "loadFailed h v =
     v\<lparr>loadingTexts := loadingTexts v @ [translate h ''Load failed''],
       state := (state v)\<lparr>isLoading := False\<rparr>\<rparr>"

text \<open>
  \<open>loadGallery(forceRefresh)\<close> at time \<open>now\<close>, with the events of the listing stream.
  \<open>None\<close>: the call waits for ever for the listing.
\<close>

definition loadGallery ::
  "Host \<Rightarrow> bool \<Rightarrow> int \<Rightarrow> StreamEvent list \<Rightarrow> MinioGalleryView \<Rightarrow> MinioGalleryView option" where
  "loadGallery h forceRefresh now evs v =
     (if isLoading (state v) then Some v
      else if \<not> forceRefresh \<and> now - lastLoadTime v < 60000 then Some v
      else
        (let v1 = v\<lparr>state := (state v)\<lparr>isLoading := True\<rparr>, lastLoadTime := now, imageGrid := None\<rparr>
         in if bucket v1 = [] then Some (loadFailed h v1)
            else
              (case sync evs (remoteObjects (state v1)) (cache v1) of
                 (None, c) \<Rightarrow> None
               | (Some (Inl e), c) \<Rightarrow> Some (loadFailed h (v1\<lparr>cache := c\<rparr>))
               | (Some (Inr (objects, changes)), c) \<Rightarrow>
                   (let imageObjects =
                          sortNewestFirst (filter (\<lambda>obj. view_isImageFile (name obj)) objects);
                        v2 = v1\<lparr>cache := c, state := (state v1)\<lparr>remoteObjects := objects\<rparr>,
                                imageGrid := Some imageObjects\<rparr>
                    in (case renderImages h imageObjects c of
                          (Some e, c') \<Rightarrow> Some (loadFailed h (v2\<lparr>cache := c'\<rparr>))
                        | (None, c') \<Rightarrow>
                            Some (v2\<lparr>cache := c',
                                     state := (state v2)\<lparr>visibleImages := imageObjects,
                                                isSearching := False, isLoading := False\<rparr>\<rparr>))))))"

text \<open>The callback of the timer of \<open>startAutoSync\<close>.\<close>

definition autoSync :: "StreamEvent list \<Rightarrow> MinioGalleryView \<Rightarrow> MinioGalleryView option" where
  "autoSync evs v =
     (case sync evs (remoteObjects (state v)) (cache v) of
        (None, c) \<Rightarrow> None
      | (Some (Inl e), c) \<Rightarrow> Some (v\<lparr>cache := c\<rparr>)
      | (Some (Inr (objects, changes)), c) \<Rightarrow>
          Some (v\<lparr>cache := c,
                  state := (state v)\<lparr>remoteObjects := objects,
                    visibleImages :=
                      (if \<not> isSearching (state v)
                       then filter (\<lambda>obj. view_isImageFile (name obj)) objects
                       else visibleImages (state v))\<rparr>\<rparr>))"

text \<open>The \<open>catch\<close> of \<open>handleSearch\<close>: a notice with the message of the error.\<close>

definition searchFailed :: "JsError \<Rightarrow> MinioGalleryView \<Rightarrow> MinioGalleryView" where
  "searchFailed e v = (case e of Error message \<Rightarrow> v\<lparr>notices := notices v @ [message]\<rparr>)"

definition handleSearch :: "Host \<Rightarrow> string \<Rightarrow> MinioGalleryView \<Rightarrow> MinioGalleryView" where
  "handleSearch h searchText v =
     (if isLoading (state v) then v
      else
        (let v1 = v\<lparr>state := (state v)\<lparr>isSearching := True, savedSearchTerm := searchText\<rparr>\<rparr>;
             found =
               (if trimIsEmpty searchText
                then (Inr (filter (\<lambda>obj. view_isImageFile (name obj)) (remoteObjects (state v1))),
                      v1\<lparr>state := (state v1)\<lparr>isSearching := False, savedSearchTerm := []\<rparr>\<rparr>)
                else
                  (case search h (remoteObjects (state v1)) searchText
                          (useRegexSearch (state v1)) (allImageUrls v1) of
                     (Inl e, urls) \<Rightarrow> (Inl e, v1\<lparr>allImageUrls := urls\<rparr>)
                   | (Inr result, urls) \<Rightarrow> (Inr (matchedObjects result), v1\<lparr>allImageUrls := urls\<rparr>)))
         in (case found of
               (Inl e, v2) \<Rightarrow> searchFailed e v2
             | (Inr objectsToRender, v2) \<Rightarrow>
                 (let v3 = v2\<lparr>state := (state v2)\<lparr>visibleImages := objectsToRender\<rparr>,
                              imageGrid := Some objectsToRender\<rparr>
                  in (case renderImages h objectsToRender (cache v3) of
                        (Some e, c') \<Rightarrow> searchFailed e (v3\<lparr>cache := c'\<rparr>)
                      | (None, c') \<Rightarrow> v3\<lparr>cache := c'\<rparr>)))))"

section \<open>LazyImageService (src/src/services/LazyImageService.ts)\<close>

text \<open>
  An image element, as far as the service reads and writes it: \<open>img.src\<close>,
  \<open>img.dataset.src\<close> (\<open>None\<close> when the attribute \<open>data-src\<close> is absent) and the class
  list.
\<close>

record Img =
  src :: string
  dataSrc :: "string option"
  classList :: "string list"

definition classListAdd :: "string \<Rightarrow> Img \<Rightarrow> Img" where
  "classListAdd c img =
     (if c \<in> set (classList img) then img else img\<lparr>classList := classList img @ [c]\<rparr>)"

text \<open>
  What a run of the loader does, in order: a call of \<open>loadImage\<close> with its URL and
  timeout, a wait of so many milliseconds (\<open>setTimeout\<close>), a call of the callback
  \<open>onImageLoaded\<close>.
\<close>

datatype LoaderEvent = LoadImage string nat | Sleep nat | OnImageLoaded string

text \<open>
  \<open>loadImageWithRetry\<close>. The browser decides every call of \<open>loadImage\<close>: \<open>loads k\<close>
  tells whether the promise of attempt \<open>k\<close> resolves (\<open>onload\<close> in time) or rejects
  (\<open>onerror\<close>, or the timeout). \<open>retryCount\<close> and the timeout are counts, hence natural
  numbers; \<open>fallback\<close> is the constant data URL of \<open>getPlaceholderUrl()\<close>.
\<close>

function loadImageLoop ::
  "(nat \<Rightarrow> bool) \<Rightarrow> string \<Rightarrow> string \<Rightarrow> nat \<Rightarrow> nat \<Rightarrow> nat \<Rightarrow> Img \<Rightarrow> Img \<times> LoaderEvent list" where
  "loadImageLoop loads fallback url maxRetries timeout attempt img =
     (if attempt \<le> maxRetries then
        (let img1 = img\<lparr>src := url\<rparr>
         in if loads attempt
            then (classListAdd ''loaded'' img1, [LoadImage url timeout, OnImageLoaded url])
            else if attempt = maxRetries
            then ((classListAdd ''error'' img1)\<lparr>src := fallback\<rparr>, [LoadImage url timeout])
            else
              (let delay = min (1000 * 2 ^ (attempt - 1)) 3000;
                   r = loadImageLoop loads fallback url maxRetries timeout (attempt + 1) img1
               in (fst r, LoadImage url timeout # Sleep delay # snd r)))
      else (img, []))"
  by pat_completeness auto
termination
  by (relation "measure (\<lambda>(loads, fallback, url, maxRetries, timeout, attempt, img).
        Suc maxRetries - attempt)") auto

declare loadImageLoop.simps [simp del]

definition loadImageWithRetry ::
  "(nat \<Rightarrow> bool) \<Rightarrow> string \<Rightarrow> string \<Rightarrow> Img \<Rightarrow> nat \<Rightarrow> nat \<Rightarrow> Img \<times> LoaderEvent list" where
  "loadImageWithRetry loads fallback url img maxRetries timeout =
     loadImageLoop loads fallback url maxRetries timeout 1 img"

text \<open>
  One element under the service: the element, whether it is in \<open>imageElements\<close>,
  whether an idle callback of \<open>observe\<close> is pending for it, and whether the
  \<open>IntersectionObserver\<close> observes it.
\<close>

record LazyImage =
  img :: Img
  registered :: bool
  idlePending :: bool
  observed :: bool

record LazyImageOptions =
  retryCount :: nat
  timeout :: nat

text \<open>The defaults of the constructor.\<close>

definition defaultOptions :: LazyImageOptions where
  "defaultOptions = \<lparr>retryCount = 3, timeout = 8000\<rparr>"

definition hasDataSrc :: "Img \<Rightarrow> bool" where
  "hasDataSrc i = (case dataSrc i of None \<Rightarrow> False | Some s \<Rightarrow> s \<noteq> [])"

definition observe :: "LazyImage \<Rightarrow> LazyImage" where
  "observe el = (if hasDataSrc (img el) then el\<lparr>registered := True, idlePending := True\<rparr> else el)"

text \<open>The callback that \<open>observe\<close> hands to \<open>requestIdleCallback\<close> or \<open>setTimeout\<close>.\<close>

definition idleCallback :: "LazyImage \<Rightarrow> LazyImage" where
  "idleCallback el =
     (if idlePending el
      then (if hasDataSrc (img el) then el\<lparr>idlePending := False, observed := True\<rparr>
            else el\<lparr>idlePending := False\<rparr>)
      else el)"

definition unobserve :: "LazyImage \<Rightarrow> LazyImage" where
  "unobserve el = el\<lparr>observed := False, registered := False\<rparr>"

text \<open>
  The callback of the \<open>IntersectionObserver\<close> for an entry with \<open>isIntersecting\<close>; the
  observer reports observed elements only.
\<close>

definition intersecting ::
  "(nat \<Rightarrow> bool) \<Rightarrow> string \<Rightarrow> LazyImageOptions \<Rightarrow> LazyImage \<Rightarrow> LazyImage \<times> LoaderEvent list" where
  "intersecting loads fallback opts el =
     (if \<not> observed el then (el, [])
      else
        (case dataSrc (img el) of
           None \<Rightarrow> (el, [])
         | Some s \<Rightarrow>
             if s \<noteq> [] \<and> src (img el) \<noteq> s
             then (let r = loadImageWithRetry loads fallback s (img el) (retryCount opts) (timeout opts)
                   in (el\<lparr>img := (fst r)\<lparr>dataSrc := None\<rparr>, observed := False\<rparr>, snd r))
             else (el, [])))"

text \<open>What can happen to an element by itself during a session.\<close>

datatype ServiceEvent = Observe | IdleCallback | Intersecting | Unobserve

fun serviceStep ::
  "(nat \<Rightarrow> bool) \<Rightarrow> string \<Rightarrow> LazyImageOptions \<Rightarrow> ServiceEvent \<Rightarrow> LazyImage \<Rightarrow> LazyImage \<times> LoaderEvent list" where
  "serviceStep loads fallback opts Observe el = (observe el, [])"
| "serviceStep loads fallback opts IdleCallback el = (idleCallback el, [])"
| "serviceStep loads fallback opts Intersecting el = intersecting loads fallback opts el"
| "serviceStep loads fallback opts Unobserve el = (unobserve el, [])"

fun serviceRun ::
  "(nat \<Rightarrow> bool) \<Rightarrow> string \<Rightarrow> LazyImageOptions \<Rightarrow> ServiceEvent list \<Rightarrow> LazyImage \<Rightarrow> LazyImage \<times> LoaderEvent list" where
  "serviceRun loads fallback opts [] el = (el, [])"
| "serviceRun loads fallback opts (e # es) el =
     (let r = serviceStep loads fallback opts e el;
          r' = serviceRun loads fallback opts es (fst r)
      in (fst r', snd r @ snd r'))"

text \<open>
  The schedule in the words of the specification: \<open>n\<close> attempts, and between attempt
  \<open>k\<close> and attempt \<open>k + 1\<close> a wait of \<open>min (1000 * 2 ^ (k - 1)) 3000\<close> milliseconds.
\<close>

fun specSchedule :: "string \<Rightarrow> nat \<Rightarrow> nat \<Rightarrow> nat \<Rightarrow> LoaderEvent list" where
  "specSchedule url tmo k 0 = []"
| "specSchedule url tmo k (Suc 0) = [LoadImage url tmo]"
| "specSchedule url tmo k (Suc (Suc n)) =
     LoadImage url tmo # Sleep (min (1000 * 2 ^ (k - 1)) 3000) # specSchedule url tmo (Suc k) (Suc n)"

fun isLoadImage :: "LoaderEvent \<Rightarrow> bool" where
  "isLoadImage (LoadImage url tmo) = True"
| "isLoadImage _ = False"

section \<open>Sample values for the examples\<close>

text \<open>
  A host whose URLs are \<open>http://h/b/<name>\<close>, which translates nothing, renders without
  touching the cache, and rejects every pattern outside the fragment.
\<close>

definition sampleHost :: Host where
  "sampleHost =
     \<lparr>generateUrl = (\<lambda>objectName. ''http://h/b/'' @ objectName),
      translate = (\<lambda>key. key),
      regExpOther = (\<lambda>p. Inl (Error ''Invalid regular expression'')),
      nothingToRepeat = (\<lambda>p. ''Nothing to repeat''),
      renderImages = (\<lambda>objects c. (None, c))\<rparr>"

definition sampleView :: MinioGalleryView where
  "sampleView =
     \<lparr>state =
        \<lparr>remoteObjects = [\<lparr>name = ''a.png'', lastModified = Some 3\<rparr>,
                          \<lparr>name = ''b.png'', lastModified = Some 2\<rparr>],
         visibleImages = [\<lparr>name = ''a.png'', lastModified = Some 3\<rparr>],
         isSearching = True, savedSearchTerm = ''a'', useRegexSearch = True,
         currentPreviewIndex = None, isLoading = False\<rparr>,
      lastLoadTime = 0, bucket = ''b'',
      cache = ImageCache_set 1 ''a.png'' ''http://h/b/a.png'' emptyCache,
      allImageUrls = [], imageGrid = Some [\<lparr>name = ''a.png'', lastModified = Some 3\<rparr>],
      loadingTexts = [], notices = []\<rparr>"

section \<open>Properties of the cache\<close>

lemma imageCache_saveCache: "imageCache (saveCache now s) = imageCache s"
  by (simp add: saveCache_def)

lemma blobSize_replicate_ascii:
  "(of_char c :: nat) < 128 \<Longrightarrow> blobSize (replicate n c) = int n"
  by (induction n) (simp_all add: blobSize_def)

lemma blobSize_ascii_char: "(of_char c :: nat) < 128 \<Longrightarrow> blobSize [c] = 1"
  by (simp add: blobSize_def)

lemma set_stores_entry:
  "map_of (imageCache (ImageCache_set now key d s)) key
     = Some \<lparr>data = d, timestamp = now, size_bytes = blobSize d\<rparr>"
  by (simp add: ImageCache_set_def Let_def scheduleSave_def update_conv')

text \<open>
  C5. An entry of key \<open>k\<close> with time stamp \<open>t\<close> (the time of the \<open>set\<close> that inserted
  it): a \<open>get\<close> or a \<open>has\<close> at a time later than \<open>t + CACHE_EXPIRY\<close> answers with a miss
  (\<open>None\<close>, \<open>False\<close>) and deletes exactly that entry from the map; a \<open>get\<close> at or before
  \<open>t + CACHE_EXPIRY\<close> returns the stored value and leaves the cache as it is.
\<close>

theorem expired_entry_misses_and_is_deleted:
  assumes "map_of (imageCache s) k = Some e" and "timestamp e = t"
  shows "(t + CACHE_EXPIRY < now \<longrightarrow>
            fst (ImageCache_get now k s) = None
          \<and> imageCache (snd (ImageCache_get now k s)) = AList.delete k (imageCache s)
          \<and> map_of (imageCache (snd (ImageCache_get now k s))) k = None
          \<and> fst (ImageCache_has now k s) = False
          \<and> imageCache (snd (ImageCache_has now k s)) = AList.delete k (imageCache s)
          \<and> map_of (imageCache (snd (ImageCache_has now k s))) k = None)
       \<and> (now \<le> t + CACHE_EXPIRY \<longrightarrow> ImageCache_get now k s = (Some (data e), s))"
proof -
  have gone: "map_of (AList.delete k (imageCache s)) k = None"
    by (simp add: delete_conv')
  show ?thesis
    using assms gone
    by (simp add: ImageCache_get_def ImageCache_has_def imageCache_saveCache)
qed

theorem expired_entry_misses_and_is_deleted_witness:
  "fst (ImageCache_get 43200008 ''a.png'' (ImageCache_set 7 ''a.png'' ''http://h/b/a.png'' emptyCache)) = None
   \<and> imageCache (snd (ImageCache_get 43200008 ''a.png''
         (ImageCache_set 7 ''a.png'' ''http://h/b/a.png'' emptyCache))) = []
   \<and> fst (ImageCache_has 43200008 ''a.png'' (ImageCache_set 7 ''a.png'' ''http://h/b/a.png'' emptyCache)) = False
   \<and> fst (ImageCache_get 43200007 ''a.png'' (ImageCache_set 7 ''a.png'' ''http://h/b/a.png'' emptyCache))
       = Some ''http://h/b/a.png''"
proof -
  let ?s = "ImageCache_set 7 ''a.png'' ''http://h/b/a.png'' emptyCache"
  let ?e = "\<lparr>data = ''http://h/b/a.png'', timestamp = 7, size_bytes = blobSize ''http://h/b/a.png''\<rparr>"
  have h1: "map_of (imageCache ?s) ''a.png'' = Some ?e"
    by (rule set_stores_entry)
  have h2: "timestamp ?e = 7"
    by simp
  have cache: "imageCache ?s = [(''a.png'', ?e)]"
    by (simp add: ImageCache_set_def Let_def scheduleSave_def emptyCache_def
        getTotalCacheSize_def MAX_CACHE_SIZE_def blobSize_def)
  from expired_entry_misses_and_is_deleted [OF h1 h2, of 43200008]
       expired_entry_misses_and_is_deleted [OF h1 h2, of 43200007]
  show ?thesis
    by (simp add: CACHE_EXPIRY_def cache)
qed

text \<open>
  C10. At the same instant and on the same cache, \<open>has\<close> answers \<open>True\<close> exactly when
  \<open>get\<close> returns a value, and both leave the same cache behind (the expired entry
  deleted and the save attempted, or nothing changed).
\<close>

theorem has_agrees_with_get:
  "fst (ImageCache_has now k s) = (fst (ImageCache_get now k s) \<noteq> None)
   \<and> snd (ImageCache_has now k s) = snd (ImageCache_get now k s)"
  by (simp add: ImageCache_has_def ImageCache_get_def split: option.split)

text \<open>
  C1. The run of the source on three calls of \<open>set\<close> from the empty cache: a value of
  10 MiB at time 1, a value of 40 MiB at time 2 (the total is then exactly
  \<open>MAX_CACHE_SIZE\<close>), and a value of one byte at time 3. The third call runs the eviction;
  the eviction deletes the entry of 10 MiB and stops, because it compares the total
  after the deletion, minus the 10 MiB once more, with the target. The 40 MiB that
  remain are more than \<open>0.7 * MAX_CACHE_SIZE\<close>.
\<close>

theorem eviction_stops_above_target:
  "getTotalCacheSize (imageCache
      (ImageCache_set 2 ''b'' (replicate 41943040 CHR ''x'')
        (ImageCache_set 1 ''a'' (replicate 10485760 CHR ''x'') emptyCache))) + blobSize ''c''
     > MAX_CACHE_SIZE
   \<and> map fst (imageCache (cleanupOldCache 3
      (ImageCache_set 2 ''b'' (replicate 41943040 CHR ''x'')
        (ImageCache_set 1 ''a'' (replicate 10485760 CHR ''x'') emptyCache)))) = [''b'']
   \<and> getTotalCacheSize (imageCache (cleanupOldCache 3
      (ImageCache_set 2 ''b'' (replicate 41943040 CHR ''x'')
        (ImageCache_set 1 ''a'' (replicate 10485760 CHR ''x'') emptyCache)))) = 41943040
   \<and> targetSize < 41943040"
  by (simp add: ImageCache_set_def Let_def emptyCache_def blobSize_replicate_ascii
      blobSize_ascii_char getTotalCacheSize_def MAX_CACHE_SIZE_def targetSize_def
      cleanupOldCache_def scheduleSave_def saveCache_def)

text \<open>
  A call that does not write \<open>k\<close>, does not evict and does not reload a snapshot without
  the entry of \<open>k\<close> keeps an unexpired entry of \<open>k\<close>.
\<close>

lemma applyOp_keeps_entry:
  assumes "map_of (imageCache s) k = Some e"
    and "\<not> writesKey k c" and "\<not> opEvicts c s" and "\<not> opReloadsWithout k t c s"
    and "t - timestamp e \<le> CACHE_EXPIRY"
  shows "map_of (imageCache (applyOp (t, c) s)) k = Some e"
proof (cases c)
  case OpInit
  with assms show ?thesis
    by (auto simp add: ImageCache_init_def split: option.splits)
next
  case (OpGet key)
  with assms show ?thesis
    by (cases "key = k")
       (simp_all add: ImageCache_get_def imageCache_saveCache split: option.split)
next
  case (OpHas key)
  with assms show ?thesis
    by (cases "key = k")
       (simp_all add: ImageCache_has_def imageCache_saveCache split: option.split)
next
  case (OpSet key d)
  with assms show ?thesis
    by (simp add: ImageCache_set_def Let_def scheduleSave_def update_conv')
next
  case (OpDelete key)
  with assms show ?thesis
    by (simp add: ImageCache_delete_def scheduleSave_def)
next
  case OpClear
  with assms show ?thesis by simp
next
  case OpSaveTimer
  with assms show ?thesis
    by (simp add: saveTimerFires_def imageCache_saveCache)
qed

lemma runOps_keeps_entry:
  assumes "quietFor k now cs s" and "map_of (imageCache s) k = Some e"
    and "now - timestamp e \<le> CACHE_EXPIRY"
  shows "map_of (imageCache (runOps cs s)) k = Some e"
  using assms
proof (induction cs arbitrary: s)
  case Nil
  then show ?case by simp
next
  case (Cons c cs)
  obtain t c' where c: "c = (t, c')" by (cases c)
  from Cons.prems c have q: "\<not> writesKey k c'" "\<not> opEvicts c' s" "t \<le> now"
    "quietFor k now cs (applyOp (t, c') s)" "\<not> opReloadsWithout k t c' s"
    by simp_all
  from q(3) Cons.prems(3) have "t - timestamp e \<le> CACHE_EXPIRY" by simp
  with Cons.prems(2) q have "map_of (imageCache (applyOp (t, c') s)) k = Some e"
    by (simp add: applyOp_keeps_entry)
  with Cons.IH [OF q(4) _ Cons.prems(3)] c show ?case by simp
qed

text \<open>
  C6, as the code has it. After \<open>set(k, v)\<close> at time \<open>t0\<close>, whether or not that call ran
  the eviction, a \<open>get(k)\<close> at a time \<open>now\<close> with \<open>now - t0 \<le> CACHE_EXPIRY\<close> returns \<open>v\<close>,
  provided that the calls in between (any of \<open>init\<close>, \<open>get\<close>, \<open>has\<close>, \<open>set\<close>, \<open>delete\<close>,
  \<open>clear\<close> and the save timer) write no \<open>k\<close> (no \<open>delete(k)\<close>, \<open>clear()\<close>, \<open>set(k, _)\<close>),
  happen no later than \<open>now\<close>, and none of them is a \<open>set\<close> that runs the eviction or an
  \<open>init\<close> that replaces the live map by a stored snapshot without this entry of \<open>k\<close>.
  With no call in between this is the plain round trip.
\<close>

theorem set_get_round_trip:
  assumes "now - t0 \<le> CACHE_EXPIRY"
    and "quietFor k now cs (ImageCache_set t0 k v s)"
  shows "fst (ImageCache_get now k (runOps cs (ImageCache_set t0 k v s))) = Some v"
proof -
  let ?e = "\<lparr>data = v, timestamp = t0, size_bytes = blobSize v\<rparr>"
  have "map_of (imageCache (runOps cs (ImageCache_set t0 k v s))) k = Some ?e"
    using assms by (intro runOps_keeps_entry [where now = now]) (simp_all add: set_stores_entry)
  with assms(1) show ?thesis
    by (simp add: ImageCache_get_def)
qed

theorem set_get_round_trip_witness:
  "(50 :: int) - 10 \<le> CACHE_EXPIRY
   \<and> quietFor ''a.png'' 50
       [(20, OpSet ''b.png'' ''http://h/b/b.png''), (30, OpGet ''b.png''),
        (35, OpHas ''a.png''), (40, OpDelete ''c.png''), (45, OpSaveTimer), (46, OpInit)]
       (ImageCache_set 10 ''a.png'' ''http://h/b/a.png'' emptyCache)
   \<and> fst (ImageCache_get 50 ''a.png''
       (runOps
         [(20, OpSet ''b.png'' ''http://h/b/b.png''), (30, OpGet ''b.png''),
          (35, OpHas ''a.png''), (40, OpDelete ''c.png''), (45, OpSaveTimer), (46, OpInit)]
         (ImageCache_set 10 ''a.png'' ''http://h/b/a.png'' emptyCache)))
     = Some ''http://h/b/a.png''"
proof -
  let ?cs = "[(20, OpSet ''b.png'' ''http://h/b/b.png''), (30, OpGet ''b.png''),
        (35, OpHas ''a.png''), (40, OpDelete ''c.png''), (45, OpSaveTimer), (46, OpInit)]"
  have h1: "(50 :: int) - 10 \<le> CACHE_EXPIRY"
    by (simp add: CACHE_EXPIRY_def)
  have h2: "quietFor ''a.png'' 50 ?cs (ImageCache_set 10 ''a.png'' ''http://h/b/a.png'' emptyCache)"
    by (simp add: ImageCache_set_def ImageCache_get_def ImageCache_has_def ImageCache_delete_def
        ImageCache_init_def saveTimerFires_def saveCache_def Let_def scheduleSave_def
        emptyCache_def getTotalCacheSize_def MAX_CACHE_SIZE_def CACHE_EXPIRY_def blobSize_def
        objectEntries_def isArrayIndex_def isDigit_def newMap_def)
  from h1 h2 set_get_round_trip [OF h1 h2] show ?thesis
    by simp
qed

text \<open>
  C6, as the claim is written, fails: \<open>set(k, v)\<close> with a value of 40 MiB at time 0, then
  \<open>set(j, w)\<close> with a value of 20 MiB at time 1 (a call that is neither a \<open>delete\<close>, a
  \<open>clear\<close> nor a \<open>set\<close> on \<open>k\<close>), then \<open>get(k)\<close> at time 2, long before the expiry: the
  second \<open>set\<close> runs the eviction, the eviction deletes the entry of \<open>k\<close>, and the \<open>get\<close>
  is a miss.
\<close>

theorem round_trip_lost_to_later_eviction:
  "(2 :: int) - 0 \<le> CACHE_EXPIRY
   \<and> \<not> writesKey ''k'' (OpSet ''j'' (replicate 20971520 CHR ''y''))
   \<and> fst (ImageCache_get 2 ''k''
        (runOps [(1, OpSet ''j'' (replicate 20971520 CHR ''y''))]
           (ImageCache_set 0 ''k'' (replicate 41943040 CHR ''x'') emptyCache))) = None"
  by (simp add: ImageCache_set_def ImageCache_get_def Let_def emptyCache_def
      blobSize_replicate_ascii getTotalCacheSize_def MAX_CACHE_SIZE_def targetSize_def
      CACHE_EXPIRY_def cleanupOldCache_def scheduleSave_def saveCache_def)

text \<open>
  An \<open>init\<close> between the two calls can lose the entry as well: \<open>set(j, w)\<close> at time 1,
  the save timer at 1001, \<open>set(k, v)\<close> at 2000, \<open>init\<close> at 2100 (which reloads the
  snapshot of 1001, taken before \<open>k\<close> was set), and \<open>get(k)\<close> at 2200 is a miss.
\<close>

lemma round_trip_lost_to_reload:
  "fst (ImageCache_get 2200 ''k''
     (runOps [(2100, OpInit)]
        (ImageCache_set 2000 ''k'' ''v''
           (runOps [(1, OpSet ''j'' ''w''), (1001, OpSaveTimer)] emptyCache)))) = None"
  by (simp add: ImageCache_set_def ImageCache_get_def ImageCache_init_def saveTimerFires_def
      saveCache_def Let_def scheduleSave_def emptyCache_def getTotalCacheSize_def
      MAX_CACHE_SIZE_def CACHE_EXPIRY_def blobSize_def objectEntries_def isArrayIndex_def
      isDigit_def newMap_def)

section \<open>Properties of the synchronisation\<close>

lemma fetchLoop_error_after_data:
  "fetchLoop objects (map OnData ds @ OnError e # evs) = Some (Inl e)"
  by (induction ds arbitrary: objects) simp_all

text \<open>
  C3. The run of \<open>detectChanges\<close> on a local and a remote list that both hold the one
  object \<open>a.png\<close> without \<open>lastModified\<close> (the field is optional): the key is
  present on both sides with equal \<open>lastModified\<close>, yet the object is reported as added
  and \<open>hasChanges\<close> is true. With a remote \<open>lastModified\<close> of 5 the key is present on
  both sides with different values, and the object is reported as added, not as
  modified. The first loop takes \<open>localMap.get(name)\<close> being \<open>undefined\<close> for the
  absence of the key; the second loop asks \<open>remoteMap.has(name)\<close>.
\<close>

theorem detectChanges_undated_local_object:
  "detectChanges [\<lparr>name = ''a.png'', lastModified = None\<rparr>]
                 [\<lparr>name = ''a.png'', lastModified = None\<rparr>]
     = \<lparr>hasChanges = True, added = [\<lparr>name = ''a.png'', lastModified = None\<rparr>],
        deleted = [], modified = []\<rparr>
   \<and> detectChanges [\<lparr>name = ''a.png'', lastModified = None\<rparr>]
                   [\<lparr>name = ''a.png'', lastModified = Some 5\<rparr>]
     = \<lparr>hasChanges = True, added = [\<lparr>name = ''a.png'', lastModified = Some 5\<rparr>],
        deleted = [], modified = []\<rparr>"
  by (simp add: detectChanges_def newMap_def detectRemote_def detectLocal_def mapGet_def
      mapHas_def pushFound_def)

text \<open>
  C4. The same defect seen through \<open>sync\<close>: the local list and the remote listing are
  the same one object \<open>a.png\<close> without \<open>lastModified\<close>. The returned list is the local
  one and the cache is untouched, but the delta reports the object as added and
  \<open>hasChanges\<close> is true.
\<close>

theorem sync_identical_undated_listing:
  "sync [OnData \<lparr>name = ''a.png'', lastModified = None\<rparr>, OnEnd]
        [\<lparr>name = ''a.png'', lastModified = None\<rparr>] emptyCache
     = (Some (Inr ([\<lparr>name = ''a.png'', lastModified = None\<rparr>],
                   \<lparr>hasChanges = True, added = [\<lparr>name = ''a.png'', lastModified = None\<rparr>],
                      deleted = [], modified = []\<rparr>)),
        emptyCache)"
  by (simp add: sync_def fetchRemoteObjects_def sortNewestFirst_def detectChanges_def newMap_def
      detectRemote_def detectLocal_def mapGet_def mapHas_def pushFound_def)

text \<open>
  C9. When the listing fails (the stream emits \<open>error\<close> before \<open>end\<close>, after any
  number of objects), \<open>sync\<close> hands the error to its caller and leaves the cache as it
  was; \<open>loadGallery\<close>, when it reaches the \<open>sync\<close>, returns with the known objects, the
  visible objects, the cache and the URL map of the search as they were; the timer of
  the automatic synchronisation leaves the whole view as it was.
\<close>

theorem failed_fetch_keeps_snapshot:
  assumes "fetchRemoteObjects evs = Some (Inl e)"
  shows "sync evs localObjects c = (Some (Inl e), c)
       \<and> map_option (\<lambda>v'. (remoteObjects (state v'), visibleImages (state v'), cache v', allImageUrls v'))
            (loadGallery h forceRefresh now evs v)
          = Some (remoteObjects (state v), visibleImages (state v), cache v, allImageUrls v)
       \<and> autoSync evs v = Some v"
  using assms
  by (simp add: sync_def loadGallery_def autoSync_def loadFailed_def Let_def)

theorem failed_fetch_keeps_snapshot_witness:
  "fetchRemoteObjects
     [OnData \<lparr>name = ''c.png'', lastModified = Some 9\<rparr>, OnError (Error ''socket hang up'')]
     = Some (Inl (Error ''socket hang up''))
   \<and> sync [OnData \<lparr>name = ''c.png'', lastModified = Some 9\<rparr>, OnError (Error ''socket hang up'')]
        (remoteObjects (state sampleView)) (cache sampleView)
     = (Some (Inl (Error ''socket hang up'')), cache sampleView)
   \<and> map_option (\<lambda>v'. (remoteObjects (state v'), visibleImages (state v'), cache v', allImageUrls v'))
        (loadGallery sampleHost True 120000
           [OnData \<lparr>name = ''c.png'', lastModified = Some 9\<rparr>, OnError (Error ''socket hang up'')]
           sampleView)
     = Some (remoteObjects (state sampleView), visibleImages (state sampleView),
             cache sampleView, allImageUrls sampleView)
   \<and> autoSync [OnData \<lparr>name = ''c.png'', lastModified = Some 9\<rparr>, OnError (Error ''socket hang up'')]
        sampleView = Some sampleView"
proof -
  let ?evs = "[OnData \<lparr>name = ''c.png'', lastModified = Some 9\<rparr>, OnError (Error ''socket hang up'')]"
  have h: "fetchRemoteObjects ?evs = Some (Inl (Error ''socket hang up''))"
    by (simp add: fetchRemoteObjects_def)
  show ?thesis
    by (rule conjI [OF h failed_fetch_keeps_snapshot [OF h, of "remoteObjects (state sampleView)"
          "cache sampleView" sampleHost True 120000 sampleView]])
qed

subsection \<open>The delta for lists with unique names\<close>

lemma update_fresh_key: "k \<notin> fst ` set m \<Longrightarrow> AList.update k v m = m @ [(k, v)]"
  by (induction m) auto

lemma foldl_update_distinct:
  "distinct (map fst (m @ ps)) \<Longrightarrow> foldl (\<lambda>m (k, v). AList.update k v m) m ps = m @ ps"
proof (induction ps arbitrary: m)
  case Nil
  show ?case by simp
next
  case (Cons p ps)
  obtain k v where p: "p = (k, v)" by (cases p)
  from Cons.prems p have fresh: "k \<notin> fst ` set m"
    by auto
  from Cons.prems p have "distinct (map fst ((m @ [(k, v)]) @ ps))"
    by simp
  from Cons.IH [OF this] p fresh show ?case
    by (simp add: update_fresh_key)
qed

text \<open>With unique keys \<open>new Map(pairs)\<close> holds the pairs as they are.\<close>

lemma newMap_distinct: "distinct (map fst ps) \<Longrightarrow> newMap ps = ps"
  using foldl_update_distinct [of "[]" ps] by (simp add: newMap_def)

lemma find_by_name:
  "distinct (map name xs) \<Longrightarrow> obj \<in> set xs \<Longrightarrow> List.find (\<lambda>x. name x = name obj) xs = Some obj"
  by (induction xs) (auto simp add: image_iff)

lemma find_remote_key:
  "n \<in> name ` set remote \<Longrightarrow> List.find (\<lambda>obj. name obj = n) remote \<noteq> None"
  by (auto simp add: find_None_iff)

lemma detectRemote_step:
  assumes "distinct (map name remote)" and "r \<in> set remote"
  shows "detectRemote localMap remote ch (name r, lastModified r)
     = (case mapGet localMap (name r) of
          None \<Rightarrow> ch\<lparr>added := added ch @ [r], hasChanges := True\<rparr>
        | Some t \<Rightarrow> if lastModified r \<noteq> Some t
                    then ch\<lparr>modified := modified ch @ [r], hasChanges := True\<rparr> else ch)"
  by (simp add: detectRemote_def pushFound_def find_by_name [OF assms] split: option.split)

lemma detectRemote_run:
  assumes "distinct (map name remote)" and "set rs \<subseteq> set remote"
  shows "added (foldl (detectRemote localMap remote) ch (map (\<lambda>obj. (name obj, lastModified obj)) rs))
           = added ch @ filter (seenAdded localMap) rs
       \<and> modified (foldl (detectRemote localMap remote) ch (map (\<lambda>obj. (name obj, lastModified obj)) rs))
           = modified ch @ filter (seenModified localMap) rs
       \<and> deleted (foldl (detectRemote localMap remote) ch (map (\<lambda>obj. (name obj, lastModified obj)) rs))
           = deleted ch
       \<and> hasChanges (foldl (detectRemote localMap remote) ch (map (\<lambda>obj. (name obj, lastModified obj)) rs))
           = (hasChanges ch \<or> filter (seenAdded localMap) rs \<noteq> []
                \<or> filter (seenModified localMap) rs \<noteq> [])"
  using assms(2)
proof (induction rs arbitrary: ch)
  case Nil
  show ?case by simp
next
  case (Cons r rs)
  from Cons.prems have r: "r \<in> set remote" and rs: "set rs \<subseteq> set remote"
    by simp_all
  let ?ch1 = "detectRemote localMap remote ch (name r, lastModified r)"
  have unfold: "foldl (detectRemote localMap remote) ch (map (\<lambda>obj. (name obj, lastModified obj)) (r # rs))
      = foldl (detectRemote localMap remote) ?ch1 (map (\<lambda>obj. (name obj, lastModified obj)) rs)"
    by simp
  have fields: "added ?ch1 = added ch @ filter (seenAdded localMap) [r]"
    "modified ?ch1 = modified ch @ filter (seenModified localMap) [r]"
    "deleted ?ch1 = deleted ch"
    "hasChanges ?ch1 = (hasChanges ch \<or> seenAdded localMap r \<or> seenModified localMap r)"
    by (simp_all add: detectRemote_step [OF assms(1) r] seenAdded_def seenModified_def
        split: option.split)
  from Cons.IH [OF rs, of ?ch1] show ?case
    unfolding unfold fields by auto
qed

lemma detectLocal_run:
  "added (foldl (detectLocal remoteMap) ch ns) = added ch
   \<and> modified (foldl (detectLocal remoteMap) ch ns) = modified ch
   \<and> deleted (foldl (detectLocal remoteMap) ch ns)
       = deleted ch @ filter (\<lambda>n. \<not> mapHas remoteMap n) ns
   \<and> hasChanges (foldl (detectLocal remoteMap) ch ns)
       = (hasChanges ch \<or> filter (\<lambda>n. \<not> mapHas remoteMap n) ns \<noteq> [])"
proof (induction ns arbitrary: ch)
  case Nil
  show ?case by simp
next
  case (Cons n ns)
  have unfold: "foldl (detectLocal remoteMap) ch (n # ns)
      = foldl (detectLocal remoteMap) (detectLocal remoteMap ch n) ns"
    by simp
  show ?case
    unfolding unfold by (simp add: Cons.IH) (simp add: detectLocal_def)
qed

lemma mapHas_pairs:
  "mapHas (map (\<lambda>obj. (name obj, lastModified obj)) xs) n \<longleftrightarrow> n \<in> name ` set xs"
  by (induction xs) (auto simp add: mapHas_def)

text \<open>
  The delta of two lists with unique names: \<open>added\<close> and \<open>modified\<close> are the remote
  objects, in order, for which \<open>localMap.get\<close> is \<open>undefined\<close>, respectively a time other
  than the remote one; \<open>deleted\<close> are the local names that the remote list lacks; and
  \<open>hasChanges\<close> tells whether one of the three is not empty.
\<close>

lemma detectChanges_unique_names:
  assumes "distinct (map name local)" and "distinct (map name remote)"
  shows "added (detectChanges local remote)
           = filter (seenAdded (map (\<lambda>obj. (name obj, lastModified obj)) local)) remote"
    and "modified (detectChanges local remote)
           = filter (seenModified (map (\<lambda>obj. (name obj, lastModified obj)) local)) remote"
    and "deleted (detectChanges local remote)
           = filter (\<lambda>n. n \<notin> name ` set remote) (map name local)"
    and "hasChanges (detectChanges local remote)
           \<longleftrightarrow> added (detectChanges local remote) \<noteq> []
             \<or> deleted (detectChanges local remote) \<noteq> []
             \<or> modified (detectChanges local remote) \<noteq> []"
proof -
  let ?pairs = "\<lambda>xs. map (\<lambda>obj. (name obj, lastModified obj)) xs"
  let ?ch0 = "\<lparr>hasChanges = False, added = [], deleted = [], modified = []\<rparr>"
  let ?ch1 = "foldl (detectRemote (?pairs local) remote) ?ch0 (?pairs remote)"
  have l: "newMap (?pairs local) = ?pairs local" and r: "newMap (?pairs remote) = ?pairs remote"
    using assms by (simp_all add: newMap_distinct comp_def)
  have keys: "map fst (?pairs local) = map name local"
    by (simp add: comp_def)
  have dc: "detectChanges local remote
      = foldl (detectLocal (?pairs remote)) ?ch1 (map name local)"
    unfolding detectChanges_def Let_def l r keys ..
  note one = detectRemote_run [OF assms(2) subset_refl, of "?pairs local" ?ch0]
  note two = detectLocal_run [of "?pairs remote" ?ch1 "map name local"]
  have lacks: "(\<lambda>n. \<not> mapHas (?pairs remote) n) = (\<lambda>n. n \<notin> name ` set remote)"
    by (rule ext) (simp add: mapHas_pairs)
  from one have a1: "added ?ch1 = filter (seenAdded (?pairs local)) remote"
    and m1: "modified ?ch1 = filter (seenModified (?pairs local)) remote"
    and d1: "deleted ?ch1 = []"
    and h1: "hasChanges ?ch1 = (filter (seenAdded (?pairs local)) remote \<noteq> []
               \<or> filter (seenModified (?pairs local)) remote \<noteq> [])"
    by simp_all
  from two have a2: "added (detectChanges local remote) = added ?ch1"
    and m2: "modified (detectChanges local remote) = modified ?ch1"
    and d2: "deleted (detectChanges local remote)
               = deleted ?ch1 @ filter (\<lambda>n. n \<notin> name ` set remote) (map name local)"
    and h2: "hasChanges (detectChanges local remote)
               = (hasChanges ?ch1 \<or> filter (\<lambda>n. n \<notin> name ` set remote) (map name local) \<noteq> [])"
    unfolding dc lacks by blast+
  show a: "added (detectChanges local remote) = filter (seenAdded (?pairs local)) remote"
    by (simp only: a2 a1)
  show m: "modified (detectChanges local remote) = filter (seenModified (?pairs local)) remote"
    by (simp only: m2 m1)
  show d: "deleted (detectChanges local remote)
           = filter (\<lambda>n. n \<notin> name ` set remote) (map name local)"
    by (simp only: d2 d1 append_Nil)
  show "hasChanges (detectChanges local remote)
           \<longleftrightarrow> added (detectChanges local remote) \<noteq> []
             \<or> deleted (detectChanges local remote) \<noteq> []
             \<or> modified (detectChanges local remote) \<noteq> []"
    unfolding a m d h2 h1 by blast
qed

lemma mapGet_dated:
  assumes "\<forall>obj\<in>set xs. lastModified obj \<noteq> None"
  shows "mapGet (map (\<lambda>obj. (name obj, lastModified obj)) xs) n = None \<longleftrightarrow> n \<notin> name ` set xs"
  using assms by (induction xs) (auto simp add: mapGet_def)

lemma mapGet_unique:
  assumes "distinct (map name xs)" and "obj \<in> set xs"
  shows "mapGet (map (\<lambda>obj. (name obj, lastModified obj)) xs) (name obj) = lastModified obj"
  using assms by (induction xs) (auto simp add: mapGet_def image_iff)

text \<open>
  When, besides, every local object has a \<open>lastModified\<close>, the delta is the one of the
  specification: a remote object is added exactly when its name is not a local one, and
  modified exactly when the local object of its name has another \<open>lastModified\<close>.
\<close>

lemma detectChanges_dated_local:
  assumes "distinct (map name local)" and "distinct (map name remote)"
    and "\<forall>obj\<in>set local. lastModified obj \<noteq> None"
  shows "added (detectChanges local remote)
           = filter (\<lambda>obj. name obj \<notin> name ` set local) remote"
    and "deleted (detectChanges local remote)
           = filter (\<lambda>n. n \<notin> name ` set remote) (map name local)"
    and "modified (detectChanges local remote)
           = filter (\<lambda>obj. \<exists>old \<in> set local. name old = name obj
                \<and> lastModified old \<noteq> lastModified obj) remote"
    and "hasChanges (detectChanges local remote)
           \<longleftrightarrow> added (detectChanges local remote) \<noteq> []
             \<or> deleted (detectChanges local remote) \<noteq> []
             \<or> modified (detectChanges local remote) \<noteq> []"
proof -
  let ?lm = "map (\<lambda>obj. (name obj, lastModified obj)) local"
  note d = detectChanges_unique_names [OF assms(1,2)]
  have "seenAdded ?lm = (\<lambda>obj. name obj \<notin> name ` set local)"
    by (rule ext) (simp add: seenAdded_def mapGet_dated [OF assms(3)])
  then show "added (detectChanges local remote)
      = filter (\<lambda>obj. name obj \<notin> name ` set local) remote"
    by (simp add: d(1))
  show "deleted (detectChanges local remote)
      = filter (\<lambda>n. n \<notin> name ` set remote) (map name local)"
    by (rule d(3))
  show "hasChanges (detectChanges local remote)
           \<longleftrightarrow> added (detectChanges local remote) \<noteq> []
             \<or> deleted (detectChanges local remote) \<noteq> []
             \<or> modified (detectChanges local remote) \<noteq> []"
    by (rule d(4))
  have "seenModified ?lm obj
        \<longleftrightarrow> (\<exists>old \<in> set local. name old = name obj \<and> lastModified old \<noteq> lastModified obj)"
    for obj
  proof (cases "name obj \<in> name ` set local")
    case False
    with mapGet_dated [OF assms(3), of "name obj"] show ?thesis
      by (auto simp add: seenModified_def image_iff)
  next
    case True
    then obtain old where old: "old \<in> set local" "name old = name obj"
      by (auto simp add: image_iff)
    from assms(1) have "inj_on name (set local)"
      by (simp add: distinct_map)
    with old have only: "x \<in> set local \<Longrightarrow> name x = name obj \<Longrightarrow> x = old" for x
      by (simp add: inj_on_def)
    from mapGet_unique [OF assms(1) old(1)] old(2)
    have got: "mapGet ?lm (name obj) = lastModified old"
      by simp
    from assms(3) old(1) obtain t where t: "lastModified old = Some t"
      by auto
    have "seenModified ?lm obj \<longleftrightarrow> lastModified old \<noteq> lastModified obj"
      by (auto simp add: seenModified_def got t)
    also have "\<dots> \<longleftrightarrow> (\<exists>x \<in> set local. name x = name obj \<and> lastModified x \<noteq> lastModified obj)"
      using old only by blast
    finally show ?thesis .
  qed
  then have "seenModified ?lm = (\<lambda>obj. \<exists>old \<in> set local. name old = name obj
                \<and> lastModified old \<noteq> lastModified obj)"
    by (intro ext)
  then show "modified (detectChanges local remote)
      = filter (\<lambda>obj. \<exists>old \<in> set local. name old = name obj
                \<and> lastModified old \<noteq> lastModified obj) remote"
    by (simp add: d(2))
qed

text \<open>The example of the specification, for all times with \<open>t2 \<noteq> t3\<close>.\<close>

lemma detectChanges_spec_example:
  assumes "t2 \<noteq> t3"
  shows "detectChanges
           [\<lparr>name = ''a'', lastModified = Some t1\<rparr>, \<lparr>name = ''b'', lastModified = Some t2\<rparr>]
           [\<lparr>name = ''a'', lastModified = Some t1\<rparr>, \<lparr>name = ''b'', lastModified = Some t3\<rparr>,
            \<lparr>name = ''c'', lastModified = Some t4\<rparr>]
         = \<lparr>hasChanges = True, added = [\<lparr>name = ''c'', lastModified = Some t4\<rparr>], deleted = [],
            modified = [\<lparr>name = ''b'', lastModified = Some t3\<rparr>]\<rparr>"
  using assms
  by (simp add: detectChanges_def newMap_def detectRemote_def detectLocal_def mapGet_def
      mapHas_def pushFound_def)

lemma foldl_update_keys:
  "fst ` set (foldl (\<lambda>m (k, v). AList.update k v m) m ps) = fst ` set m \<union> fst ` set ps"
proof (induction ps arbitrary: m)
  case Nil
  show ?case by simp
next
  case (Cons p ps)
  obtain k v where p: "p = (k, v)" by (cases p)
  have "fst ` set (AList.update k v m) = insert k (fst ` set m)"
    by (simp add: dom_update)
  with Cons.IH [of "AList.update k v m"] p show ?case
    by simp
qed

text \<open>The keys of \<open>new Map(pairs)\<close> are the keys of the pairs.\<close>

lemma newMap_keys: "fst ` set (newMap ps) = fst ` set ps"
  by (simp add: newMap_def foldl_update_keys)

subsection \<open>Identical listings\<close>

lemma object_fields: "\<lparr>name = name obj, lastModified = lastModified obj\<rparr> = obj"
  by (cases obj) simp

lemma fetchLoop_complete_listing:
  assumes "\<forall>obj\<in>set xs. name obj \<noteq> []"
  shows "fetchLoop objects (map OnData xs @ [OnEnd]) = Some (Inr (sortNewestFirst (objects @ xs)))"
  using assms by (induction xs arbitrary: objects) (simp_all add: object_fields)

lemma distinct_names_sorted:
  "distinct (map name (sortNewestFirst xs)) = distinct (map name xs)"
  by (simp add: sortNewestFirst_def distinct_map)

text \<open>
  For a list with unique names in which every object has a \<open>lastModified\<close>, the delta
  against the same objects in any order is empty.
\<close>

lemma detectChanges_same_objects:
  assumes "distinct (map name xs)" and "distinct (map name ys)" and "set ys = set xs"
    and "\<forall>obj\<in>set xs. lastModified obj \<noteq> None"
  shows "detectChanges xs ys = \<lparr>hasChanges = False, added = [], deleted = [], modified = []\<rparr>"
proof -
  note d = detectChanges_dated_local [OF assms(1,2,4)]
  from assms(1) have inj: "inj_on name (set xs)"
    by (simp add: distinct_map)
  have a: "added (detectChanges xs ys) = []"
    unfolding d(1) using assms(3) by (simp add: filter_empty_conv)
  have e: "deleted (detectChanges xs ys) = []"
    unfolding d(2) using assms(3) by (simp add: filter_empty_conv)
  have "\<not> (\<exists>old \<in> set xs. name old = name obj \<and> lastModified old \<noteq> lastModified obj)"
    if "obj \<in> set ys" for obj
    using that assms(3) inj by (auto dest: inj_onD)
  then have m: "modified (detectChanges xs ys) = []"
    unfolding d(3) by (simp add: filter_empty_conv)
  from d(4) a e m have "\<not> hasChanges (detectChanges xs ys)"
    by simp
  with a e m show ?thesis
    by (cases "detectChanges xs ys") simp
qed

text \<open>
  For such a list \<open>xs\<close> with non-empty names, \<open>sync\<close> against a listing that emits
  exactly the objects of \<open>xs\<close> returns the list sorted newest first, an empty delta and
  the cache as it was; when \<open>xs\<close> is sorted newest first, as the result of an earlier
  \<open>sync\<close> is, the returned list is \<open>xs\<close> itself.
\<close>

lemma sync_identical_dated_listing:
  assumes "distinct (map name xs)" and "\<forall>obj\<in>set xs. lastModified obj \<noteq> None"
    and "\<forall>obj\<in>set xs. name obj \<noteq> []"
  shows "sync (map OnData xs @ [OnEnd]) xs c
           = (Some (Inr (sortNewestFirst xs,
                \<lparr>hasChanges = False, added = [], deleted = [], modified = []\<rparr>)), c)"
    and "sorted (map (\<lambda>obj. - timeOrZero obj) xs) \<Longrightarrow> sortNewestFirst xs = xs"
proof -
  have f: "fetchRemoteObjects (map OnData xs @ [OnEnd]) = Some (Inr (sortNewestFirst xs))"
    using fetchLoop_complete_listing [OF assms(3), of "[]"] by (simp add: fetchRemoteObjects_def)
  have "set (sortNewestFirst xs) = set xs"
    by (simp add: sortNewestFirst_def)
  from detectChanges_same_objects [OF assms(1) _ this assms(2)] assms(1)
  have "detectChanges xs (sortNewestFirst xs)
      = \<lparr>hasChanges = False, added = [], deleted = [], modified = []\<rparr>"
    by (simp add: distinct_names_sorted)
  with f show "sync (map OnData xs @ [OnEnd]) xs c
           = (Some (Inr (sortNewestFirst xs,
                \<lparr>hasChanges = False, added = [], deleted = [], modified = []\<rparr>)), c)"
    by (simp add: sync_def)
  show "sorted (map (\<lambda>obj. - timeOrZero obj) xs) \<Longrightarrow> sortNewestFirst xs = xs"
    by (simp add: sortNewestFirst_def sort_key_id_if_sorted)
qed

subsection \<open>Saving and reloading the cache\<close>

lemma set_objectEntries: "set (objectEntries m) = set m"
  by (auto simp add: objectEntries_def)

lemma distinct_objectEntries:
  assumes "distinct (map fst m)"
  shows "distinct (map fst (objectEntries m))"
proof -
  from assms have d: "distinct m" and inj: "inj_on fst (set m)"
    by (simp_all add: distinct_map)
  have "distinct (objectEntries m)"
    using d by (auto simp add: objectEntries_def)
  moreover have "inj_on fst (set (objectEntries m))"
    using inj by (simp add: set_objectEntries)
  ultimately show ?thesis
    by (simp add: distinct_map)
qed

text \<open>
  A map with unique keys that is saved and loaded again by \<open>init\<close> before the snapshot
  expires holds the same entry for every key (the order of the keys may differ).
\<close>

lemma reload_after_save:
  assumes "distinct (map fst (imageCache s))" and "dirty s" and "storage_writable s"
    and "t - now < CACHE_EXPIRY"
  shows "map_of (imageCache (ImageCache_init t (saveCache now s))) = map_of (imageCache s)"
proof -
  let ?saved = "objectEntries (imageCache s)"
  have d: "distinct (map fst ?saved)"
    by (rule distinct_objectEntries [OF assms(1)])
  have "map_of ?saved = map_of (imageCache s)"
    using d assms(1) by (simp add: map_of_inject_set set_objectEntries)
  with assms show ?thesis
    by (simp add: saveCache_def ImageCache_init_def newMap_distinct [OF d])
qed

section \<open>Properties of the search\<close>

subsection \<open>Invalid patterns\<close>

lemma parseFragment_without_star:
  "CHR ''*'' \<notin> set p \<Longrightarrow> parseFragment p \<noteq> None"
  by (induction p rule: parseFragment.induct) auto

lemma syntax_is_no_whitespace: "isSyntaxCharacter c \<Longrightarrow> \<not> isWhiteSpace c"
  unfolding isSyntaxCharacter_def
  by (auto simp add: isWhiteSpace_def Let_def)

lemma whitespace_is_no_syntax: "isWhiteSpace c \<Longrightarrow> \<not> isSyntaxCharacter c"
  using syntax_is_no_whitespace by blast

lemma startsWith_single: "startsWith s [c] \<longleftrightarrow> s \<noteq> [] \<and> hd s = c"
  by (cases s) (simp_all add: startsWith_def)

lemma endsWith_single: "endsWith s [c] \<longleftrightarrow> s \<noteq> [] \<and> last s = c"
  by (cases s rule: rev_cases) (simp_all add: endsWith_def)

lemma star_is_syntax: "isSyntaxCharacter (CHR ''*'')"
  by (simp add: isSyntaxCharacter_def)

lemma special_is_syntax: "c \<in> set ''()[?+'' \<Longrightarrow> isSyntaxCharacter c"
  by (auto simp add: isSyntaxCharacter_def)

text \<open>A text without syntax characters passes the conversion unchanged.\<close>

lemma convert_plain_text:
  assumes "\<forall>c\<in>set q. \<not> isSyntaxCharacter c"
  shows "convertWildcardToRegex q = q"
proof -
  from assms have nostar: "CHR ''*'' \<notin> set q"
    using star_is_syntax by blast
  from assms have nospecial: "\<not> hasSpecialChars q"
    unfolding hasSpecialChars_def list_ex_iff using special_is_syntax by blast
  from nostar have "\<not> startsWith q ''*''"
    unfolding startsWith_single using hd_in_set by metis
  moreover from nostar have "\<not> endsWith q ''*''"
    unfolding endsWith_single using last_in_set by metis
  ultimately show ?thesis
    using nospecial by (simp add: convertWildcardToRegex_def)
qed

text \<open>A text of white space is a valid pattern.\<close>

lemma blank_text_compiles:
  assumes "trimIsEmpty q"
  shows "newRegExp h (convertWildcardToRegex q) \<noteq> Inl e"
proof -
  from assms have nosyn: "\<forall>c\<in>set q. \<not> isSyntaxCharacter c"
    unfolding trimIsEmpty_def list_all_iff using whitespace_is_no_syntax by blast
  then have nostar: "CHR ''*'' \<notin> set q"
    using star_is_syntax by blast
  from nosyn have frag: "inFragment q"
    by (simp add: inFragment_def list_all_iff)
  from parseFragment_without_star [OF nostar] obtain ps where "parseFragment q = Some ps"
    by blast
  with frag show ?thesis
    by (simp add: newRegExp_def convert_plain_text [OF nosyn])
qed

text \<open>
  C8. In regex mode, when the constructor of the regular expression throws on the
  converted query, \<open>search\<close> throws an error whose message is the translation of
  \<open>Invalid regex pattern\<close>, a colon and the message of the syntax error, and leaves the
  URL map as it was; \<open>handleSearch\<close> keeps the visible objects, the known objects, the
  image grid, the cache and the URL map, and (unless a load is running, in which case
  no search is made) shows that message in a notice.
\<close>

theorem invalid_regex_keeps_visible_set:
  assumes "newRegExp h (convertWildcardToRegex q) = Inl (Error msg)"
    and "useRegexSearch (state v)"
  shows "search h objects q True urls
           = (Inl (Error (translate h ''Invalid regex pattern'' @ '': '' @ msg)), urls)
       \<and> visibleImages (state (handleSearch h q v)) = visibleImages (state v)
       \<and> remoteObjects (state (handleSearch h q v)) = remoteObjects (state v)
       \<and> imageGrid (handleSearch h q v) = imageGrid v
       \<and> cache (handleSearch h q v) = cache v
       \<and> allImageUrls (handleSearch h q v) = allImageUrls v
       \<and> notices (handleSearch h q v)
           = (if isLoading (state v) then notices v
              else notices v @ [translate h ''Invalid regex pattern'' @ '': '' @ msg])"
proof -
  from assms(1) have nonblank: "\<not> trimIsEmpty q"
    using blank_text_compiles by blast
  have s: "search h objs q True us
             = (Inl (Error (translate h ''Invalid regex pattern'' @ '': '' @ msg)), us)" for objs us
    using assms(1) nonblank by (simp add: search_def regexSearch_def)
  show ?thesis
    using assms(2) nonblank
    by (simp add: s handleSearch_def searchFailed_def Let_def)
qed

theorem invalid_regex_keeps_visible_set_witness:
  "newRegExp sampleHost (convertWildcardToRegex ''**cat'') = Inl (Error ''Nothing to repeat'')
   \<and> useRegexSearch (state sampleView)
   \<and> search sampleHost (remoteObjects (state sampleView)) ''**cat'' True []
       = (Inl (Error (translate sampleHost ''Invalid regex pattern'' @ '': '' @ ''Nothing to repeat'')), [])
   \<and> visibleImages (state (handleSearch sampleHost ''**cat'' sampleView))
       = visibleImages (state sampleView)
   \<and> remoteObjects (state (handleSearch sampleHost ''**cat'' sampleView))
       = remoteObjects (state sampleView)
   \<and> imageGrid (handleSearch sampleHost ''**cat'' sampleView) = imageGrid sampleView
   \<and> cache (handleSearch sampleHost ''**cat'' sampleView) = cache sampleView
   \<and> allImageUrls (handleSearch sampleHost ''**cat'' sampleView) = allImageUrls sampleView
   \<and> notices (handleSearch sampleHost ''**cat'' sampleView)
       = (if isLoading (state sampleView) then notices sampleView
          else notices sampleView
               @ [translate sampleHost ''Invalid regex pattern'' @ '': '' @ ''Nothing to repeat''])"
proof -
  have h1: "newRegExp sampleHost (convertWildcardToRegex ''**cat'') = Inl (Error ''Nothing to repeat'')"
    by (simp add: newRegExp_def convertWildcardToRegex_def hasSpecialChars_def startsWith_def
        endsWith_def inFragment_def isSyntaxCharacter_def sampleHost_def)
  have h2: "useRegexSearch (state sampleView)"
    by (simp add: sampleView_def)
  show ?thesis
    by (rule conjI [OF h1 conjI [OF h2 invalid_regex_keeps_visible_set [OF h1 h2,
          of "remoteObjects (state sampleView)" "[]"]]])
qed

subsection \<open>Wildcards\<close>

lemma plain_char:
  assumes "\<not> isSyntaxCharacter c"
  shows "c \<noteq> CHR ''*''" and "atomOf c = Lit c" and "c \<notin> set ''()[?+''"
  using assms by (auto simp add: isSyntaxCharacter_def atomOf_def)

lemma parseFragment_plain_prefix:
  assumes "plainText x" and "r = [] \<or> hd r \<noteq> CHR ''*''"
  shows "parseFragment (x @ r) = map_option (\<lambda>ps. literals x @ ps) (parseFragment r)"
  using assms
proof (induction x)
  case Nil
  show ?case by (simp add: literals_def option.map_ident)
next
  case (Cons c x)
  from Cons.prems(1) have c: "\<not> isSyntaxCharacter c" and x: "plainText x"
    by (simp_all add: plainText_def)
  note ih = Cons.IH [OF x Cons.prems(2)]
  show ?case
  proof (cases "x @ r")
    case Nil
    then show ?thesis
      using plain_char [OF c] by (simp add: literals_def)
  next
    case (Cons d rest)
    have "d \<noteq> CHR ''*''"
    proof (cases x)
      case Nil
      with Cons \<open>r = [] \<or> hd r \<noteq> CHR ''*''\<close> show ?thesis by auto
    next
      case (Cons d' x')
      with \<open>x @ r = d # rest\<close> x have "\<not> isSyntaxCharacter d"
        by (simp add: plainText_def)
      then show ?thesis by (rule plain_char)
    qed
    with Cons ih plain_char [OF c] show ?thesis
      by (simp add: literals_def option.map_comp comp_def)
  qed
qed

lemma parseFragment_dot_star:
  "parseFragment (''.*'' @ r) = map_option (\<lambda>ps. Star AnyChar # ps) (parseFragment r)"
  by (simp add: atomOf_def)

lemma inFragment_append: "inFragment (p @ q) \<longleftrightarrow> inFragment p \<and> inFragment q"
  by (simp add: inFragment_def)

lemma inFragment_dot_star: "inFragment ''.*''"
  by (simp add: inFragment_def)

lemma inFragment_plain: "plainText x \<Longrightarrow> inFragment x"
  by (simp add: plainText_def inFragment_def list_all_iff)

lemma matchHere_literals:
  "matchHere (literals x @ ps) s
     \<longleftrightarrow> startsWith (map canonicalize s) (map canonicalize x) \<and> matchHere ps (drop (length x) s)"
proof (induction x arbitrary: s)
  case Nil
  show ?case by (simp add: literals_def startsWith_def)
next
  case (Cons c x)
  show ?case
  proof (cases s)
    case Nil
    then show ?thesis by (simp add: literals_def startsWith_def)
  next
    case (Cons d s')
    with Cons.IH [of s'] show ?thesis
      by (auto simp add: literals_def startsWith_def)
  qed
qed

lemma matchHere_single_star: "matchHere [Star a] s"
  by (cases s) simp_all

lemma matchHere_star_skip: "matchHere ps s \<Longrightarrow> matchHere (Star a # ps) s"
  by (cases s) simp_all

lemma matchHere_star_found: "matchHere (Star a # ps) s \<Longrightarrow> regexTest ps s"
  by (induction s) auto

text \<open>A leading star adds nothing to a test that may start anywhere.\<close>

lemma regexTest_leading_star: "regexTest (Star a # ps) s = regexTest ps s"
  by (induction s) (auto dest: matchHere_star_found)

lemma regexTest_literals:
  "regexTest (literals x) s \<longleftrightarrow> containsIgnoringCase s x"
proof (induction s)
  case Nil
  from matchHere_literals [of x "[]" "[]"] show ?case
    by (auto simp add: containsIgnoringCase_def startsWith_def)
next
  case (Cons c s)
  from matchHere_literals [of x "[]" "c # s"] Cons show ?case
    by (simp add: containsIgnoringCase_def)
qed

text \<open>A trailing star adds nothing either.\<close>

lemma regexTest_literals_star:
  "regexTest (literals x @ [Star a]) s \<longleftrightarrow> containsIgnoringCase s x"
proof -
  have "matchHere (literals x @ [Star a]) u = matchHere (literals x) u" for u
    using matchHere_literals [of x "[Star a]" u] matchHere_literals [of x "[]" u]
    by (simp add: matchHere_single_star)
  then have "regexTest (literals x @ [Star a]) s = regexTest (literals x) s"
    by (induction s) simp_all
  then show ?thesis
    by (simp add: regexTest_literals)
qed

lemma hasSpecialChars_append:
  "hasSpecialChars (p @ q) \<longleftrightarrow> hasSpecialChars p \<or> hasSpecialChars q"
  by (simp add: hasSpecialChars_def)

lemma plain_not_special: "plainText x \<Longrightarrow> \<not> hasSpecialChars x"
  unfolding plainText_def hasSpecialChars_def list_all_iff list_ex_iff
  using special_is_syntax by blast

lemma star_not_special: "\<not> hasSpecialChars ''*''"
  by (simp add: hasSpecialChars_def)

lemma convert_star_both:
  assumes "plainText x"
  shows "convertWildcardToRegex (''*'' @ x @ ''*'') = ''.*'' @ x @ ''.*''"
proof -
  have "\<not> hasSpecialChars (''*'' @ x @ ''*'')"
    using plain_not_special [OF assms] star_not_special by (simp only: hasSpecialChars_append simp_thms)
  moreover have "startsWith (''*'' @ x @ ''*'') ''*''" "endsWith (''*'' @ x @ ''*'') ''*''"
    by (simp_all add: startsWith_single endsWith_single)
  moreover have "butlast (tl (''*'' @ x @ ''*'')) = x"
    by (simp add: butlast_append)
  ultimately show ?thesis
    by (simp only: convertWildcardToRegex_def if_True if_False simp_thms)
qed

lemma convert_star_first:
  assumes "plainText x" and "x \<noteq> []"
  shows "convertWildcardToRegex (''*'' @ x) = x @ ''.*''"
proof -
  have "\<not> hasSpecialChars (''*'' @ x)"
    using plain_not_special [OF assms(1)] star_not_special by (simp only: hasSpecialChars_append simp_thms)
  moreover have "startsWith (''*'' @ x) ''*''"
    by (simp add: startsWith_single)
  moreover from assms have "last x \<noteq> CHR ''*''"
    using plain_char(1) [of "last x"] by (simp add: plainText_def list_all_iff)
  with assms(2) have "\<not> endsWith (''*'' @ x) ''*''"
    by (simp add: endsWith_single)
  ultimately show ?thesis
    by (simp add: convertWildcardToRegex_def)
qed

lemma convert_star_last:
  assumes "plainText x" and "x \<noteq> []"
  shows "convertWildcardToRegex (x @ ''*'') = ''.*'' @ x"
proof -
  have "\<not> hasSpecialChars (x @ ''*'')"
    using plain_not_special [OF assms(1)] star_not_special by (simp only: hasSpecialChars_append simp_thms)
  moreover from assms have "hd x \<noteq> CHR ''*''"
    using plain_char(1) [of "hd x"] by (simp add: plainText_def list_all_iff)
  with assms(2) have "\<not> startsWith (x @ ''*'') ''*''"
    by (simp add: startsWith_single)
  moreover have "endsWith (x @ ''*'') ''*''"
    by (simp add: endsWith_single)
  ultimately show ?thesis
    by (simp add: convertWildcardToRegex_def)
qed

lemma convert_single_star: "convertWildcardToRegex ''*'' = ''.*.*''"
  by (simp add: convertWildcardToRegex_def hasSpecialChars_def startsWith_def endsWith_def)

lemma test_star_both:
  assumes "plainText x"
  shows "regexSearchTest h (''*'' @ x @ ''*'') url = Some (containsIgnoringCase url x)"
proof -
  have frag: "inFragment (''.*'' @ x @ ''.*'')"
    using inFragment_plain [OF assms] inFragment_dot_star by (simp only: inFragment_append)
  have "parseFragment (x @ ''.*'') = Some (literals x @ [Star AnyChar])"
    using parseFragment_plain_prefix [OF assms, of "''.*''"] by (simp add: atomOf_def)
  then have "parseFragment (''.*'' @ x @ ''.*'') = Some (Star AnyChar # literals x @ [Star AnyChar])"
    by (simp only: parseFragment_dot_star option.map)
  with frag show ?thesis
    by (simp only: regexSearchTest_def convert_star_both [OF assms] newRegExp_def if_True
        option.case sum.case regexTest_leading_star regexTest_literals_star)
qed

lemma test_star_first:
  assumes "plainText x"
  shows "regexSearchTest h (''*'' @ x) url = Some (containsIgnoringCase url x)"
proof (cases "x = []")
  case True
  with test_star_both [of "[]" h url] show ?thesis
    by (simp add: plainText_def regexSearchTest_def convert_single_star convertWildcardToRegex_def
        hasSpecialChars_def startsWith_def endsWith_def)
next
  case False
  have frag: "inFragment (x @ ''.*'')"
    using inFragment_plain [OF assms] inFragment_dot_star by (simp only: inFragment_append)
  have "parseFragment (x @ ''.*'') = Some (literals x @ [Star AnyChar])"
    using parseFragment_plain_prefix [OF assms, of "''.*''"] by (simp add: atomOf_def)
  with frag show ?thesis
    by (simp only: regexSearchTest_def convert_star_first [OF assms False] newRegExp_def if_True
        option.case sum.case regexTest_literals_star)
qed

lemma test_star_last:
  assumes "plainText x"
  shows "regexSearchTest h (x @ ''*'') url = Some (containsIgnoringCase url x)"
proof (cases "x = []")
  case True
  with test_star_both [of "[]" h url] show ?thesis
    by (simp add: plainText_def regexSearchTest_def convert_single_star convertWildcardToRegex_def
        hasSpecialChars_def startsWith_def endsWith_def)
next
  case False
  have frag: "inFragment (''.*'' @ x)"
    using inFragment_plain [OF assms] inFragment_dot_star by (simp only: inFragment_append)
  have "parseFragment (x @ []) = Some (literals x @ [])"
    using parseFragment_plain_prefix [OF assms, of "[]"] by simp
  then have "parseFragment (''.*'' @ x) = Some (Star AnyChar # literals x)"
    using parseFragment_dot_star [of x] by simp
  with frag show ?thesis
    by (simp only: regexSearchTest_def convert_star_last [OF assms False] newRegExp_def if_True
        option.case sum.case regexTest_leading_star regexTest_literals)
qed

text \<open>
  The loop of a search keeps, in order, the image objects whose URL passes the test;
  the URLs it enters into the map are the generated ones, so the URL of a name stays
  the same during the loop.
\<close>

lemma urlFor_after_update:
  assumes "(case map_of urls k of None \<Rightarrow> [] | Some u \<Rightarrow> u) = []"
  shows "urlFor h (AList.update k (generateUrl h k) urls) n = urlFor h urls n"
  using assms by (auto simp add: urlFor_def update_conv' Let_def)

lemma foldl_searchStep:
  "\<exists>urls'. foldl (searchStep h test) (m, urls) objects
       = (m @ filter (\<lambda>obj. isImageFile (name obj) \<and> test (urlFor h urls (name obj))) objects, urls')
     \<and> (\<forall>n. urlFor h urls' n = urlFor h urls n)"
proof (induction objects arbitrary: m urls)
  case Nil
  show ?case by simp
next
  case (Cons obj objects)
  let ?cached = "case map_of urls (name obj) of None \<Rightarrow> [] | Some u \<Rightarrow> u"
  let ?keep = "isImageFile (name obj) \<and> test (urlFor h urls (name obj))"
  let ?m1 = "if ?keep then m @ [obj] else m"
  let ?urls1 = "if ?keep \<and> ?cached = []
                then AList.update (name obj) (generateUrl h (name obj)) urls else urls"
  have step: "searchStep h test (m, urls) obj = (?m1, ?urls1)"
    by (simp add: searchStep_def urlFor_def Let_def)
  have same: "urlFor h ?urls1 n = urlFor h urls n" for n
    by (simp add: urlFor_after_update)
  from Cons.IH [of ?m1 ?urls1] obtain urls' where
    run: "foldl (searchStep h test) (?m1, ?urls1) objects
            = (?m1 @ filter (\<lambda>obj. isImageFile (name obj) \<and> test (urlFor h ?urls1 (name obj))) objects, urls')"
    and keepUrl: "\<forall>n. urlFor h urls' n = urlFor h ?urls1 n"
    by blast
  have "foldl (searchStep h test) (m, urls) (obj # objects)
          = (m @ filter (\<lambda>obj. isImageFile (name obj) \<and> test (urlFor h urls (name obj))) (obj # objects), urls')"
    by (simp only: foldl_Cons step run same) simp
  moreover have "\<forall>n. urlFor h urls' n = urlFor h urls n"
    using keepUrl same by simp
  ultimately show ?case by blast
qed

lemma regexSearch_by_test:
  assumes "\<And>url. regexSearchTest h q url = Some (P url)"
  shows "fst (regexSearch h objects q urls)
           = Inr (filter (\<lambda>obj. isImageFile (name obj) \<and> P (urlFor h urls (name obj))) objects)"
proof -
  from assms [of "[]"] obtain test where t: "newRegExp h (convertWildcardToRegex q) = Inr test"
    by (auto simp add: regexSearchTest_def split: sum.splits)
  with assms have "test url = P url" for url
    by (simp add: regexSearchTest_def)
  then have "test = P" by blast
  from foldl_searchStep [of h P "[]" urls objects] obtain urls' where
    "foldl (searchStep h P) ([], urls) objects
       = (filter (\<lambda>obj. isImageFile (name obj) \<and> P (urlFor h urls (name obj))) objects, urls')"
    by auto
  with t \<open>test = P\<close> show ?thesis
    by (simp add: regexSearch_def)
qed

text \<open>
  What the conversion comes to for a text \<open>x\<close> without syntax characters: the
  regex-mode queries \<open>*x*\<close>, \<open>*x\<close> and \<open>x*\<close> all match exactly the URLs that contain \<open>x\<close>,
  letter case ignored, because the converted patterns \<open>.*x.*\<close>, \<open>x.*\<close> and \<open>.*x\<close> carry
  no anchor and the test may start anywhere in the URL. The search returns, in order,
  the image objects whose URL contains \<open>x\<close> in that sense.
\<close>

lemma wildcard_forms_match_containing_urls:
  assumes "plainText x"
  shows "regexSearchTest h (''*'' @ x @ ''*'') url = Some (containsIgnoringCase url x)
       \<and> regexSearchTest h (''*'' @ x) url = Some (containsIgnoringCase url x)
       \<and> regexSearchTest h (x @ ''*'') url = Some (containsIgnoringCase url x)
       \<and> fst (regexSearch h objects (''*'' @ x @ ''*'') urls)
           = Inr (filter (\<lambda>obj. isImageFile (name obj)
                    \<and> containsIgnoringCase (urlFor h urls (name obj)) x) objects)
       \<and> fst (regexSearch h objects (''*'' @ x) urls)
           = Inr (filter (\<lambda>obj. isImageFile (name obj)
                    \<and> containsIgnoringCase (urlFor h urls (name obj)) x) objects)
       \<and> fst (regexSearch h objects (x @ ''*'') urls)
           = Inr (filter (\<lambda>obj. isImageFile (name obj)
                    \<and> containsIgnoringCase (urlFor h urls (name obj)) x) objects)"
  using test_star_both [OF assms] test_star_first [OF assms] test_star_last [OF assms]
    regexSearch_by_test [of h "''*'' @ x @ ''*''" "\<lambda>url. containsIgnoringCase url x"]
    regexSearch_by_test [of h "''*'' @ x" "\<lambda>url. containsIgnoringCase url x"]
    regexSearch_by_test [of h "x @ ''*''" "\<lambda>url. containsIgnoringCase url x"]
  by blast

lemma contains_cat_examples:
  "containsIgnoringCase ''http://h/b/mycatpic.png'' ''cat''"
  "containsIgnoringCase ''catfood.png'' ''cat''"
  "containsIgnoringCase ''bigcat.png'' ''cat''"
  "\<not> containsIgnoringCase ''http://h/b/dog.png'' ''cat''"
  by (simp_all add: containsIgnoringCase_def startsWith_def canonicalize_def)

lemma wildcard_forms_examples:
  "plainText ''cat''
   \<and> regexSearchTest sampleHost ''*cat*'' ''http://h/b/mycatpic.png'' = Some True
   \<and> regexSearchTest sampleHost ''*cat'' ''catfood.png'' = Some True
   \<and> regexSearchTest sampleHost ''cat*'' ''catfood.png'' = Some True
   \<and> regexSearchTest sampleHost ''cat*'' ''http://h/b/dog.png'' = Some False"
proof -
  have h: "plainText ''cat''"
    by (simp add: plainText_def isSyntaxCharacter_def)
  from wildcard_forms_match_containing_urls [OF h, of sampleHost "''http://h/b/mycatpic.png''"]
       wildcard_forms_match_containing_urls [OF h, of sampleHost "''catfood.png''"]
       wildcard_forms_match_containing_urls [OF h, of sampleHost "''http://h/b/dog.png''"]
       h contains_cat_examples
  show ?thesis
    by simp
qed

text \<open>
  C2. The run of the source on the queries of the claim: \<open>cat*\<close> is converted to
  \<open>.*cat\<close>, with the \<open>.*\<close> on the side opposite the star and no anchor, and matches
  \<open>bigcat.png\<close>, which does not start with \<open>cat\<close>; \<open>*cat\<close> is converted to \<open>cat.*\<close> and
  matches \<open>catfood.png\<close>, which does not end with \<open>cat\<close>. The claim has \<open>x*\<close> match the
  URLs that start with \<open>x\<close> only, and \<open>*x\<close> the URLs that end with \<open>x\<close> only.
\<close>

theorem star_suffix_query_matches_non_prefix:
  "convertWildcardToRegex ''cat*'' = ''.*cat''
   \<and> regexSearchTest sampleHost ''cat*'' ''bigcat.png'' = Some True
   \<and> \<not> startsWith ''bigcat.png'' ''cat''
   \<and> convertWildcardToRegex ''*cat'' = ''cat.*''
   \<and> regexSearchTest sampleHost ''*cat'' ''catfood.png'' = Some True
   \<and> \<not> endsWith ''catfood.png'' ''cat''"
  by (simp add: regexSearchTest_def newRegExp_def convertWildcardToRegex_def hasSpecialChars_def
      startsWith_def endsWith_def inFragment_def isSyntaxCharacter_def atomOf_def
      canonicalize_def)

section \<open>Properties of the lazy loader\<close>

lemma failing_loop_schedule:
  "attempt + n = Suc maxRetries \<Longrightarrow>
   snd (loadImageLoop (\<lambda>k. False) fallback url maxRetries tmo attempt i)
     = specSchedule url tmo attempt n"
proof (induction url tmo attempt n arbitrary: i rule: specSchedule.induct)
  case (1 url tmo k)
  then show ?case
    by (subst loadImageLoop.simps) simp
next
  case (2 url tmo k)
  then show ?case
    by (subst loadImageLoop.simps) simp
next
  case (3 url tmo k n)
  from "3.prems" have "k < maxRetries" by simp
  moreover from "3.prems" have "Suc k + Suc n = Suc maxRetries" by simp
  ultimately show ?case
    using "3.IH" [of "i\<lparr>src := url\<rparr>"]
    by (subst loadImageLoop.simps) (simp add: Let_def)
qed

lemma failing_loop_image:
  "attempt + n = maxRetries \<Longrightarrow>
   fst (loadImageLoop (\<lambda>k. False) fallback url maxRetries tmo attempt i)
     = (classListAdd ''error'' (i\<lparr>src := url\<rparr>))\<lparr>src := fallback\<rparr>"
proof (induction n arbitrary: attempt i)
  case 0
  then show ?case
    by (subst loadImageLoop.simps) (simp add: Let_def)
next
  case (Suc n)
  from Suc.prems have "attempt < maxRetries" and "Suc attempt + n = maxRetries"
    by simp_all
  then show ?case
    using Suc.IH [of "Suc attempt" "i\<lparr>src := url\<rparr>"]
    by (subst loadImageLoop.simps) (simp add: Let_def)
qed

lemma specSchedule_attempts:
  "length (filter isLoadImage (specSchedule url tmo k n)) = n"
  by (induction url tmo k n rule: specSchedule.induct) simp_all

text \<open>Without \<open>data-src\<close> nothing that the service does to an element starts a load.\<close>

lemma serviceStep_without_dataSrc:
  assumes "dataSrc (img el) = None"
  shows "snd (serviceStep loads fallback opts e el) = []
       \<and> img (fst (serviceStep loads fallback opts e el)) = img el"
  using assms
  by (cases e)
     (simp_all add: observe_def idleCallback_def unobserve_def intersecting_def hasDataSrc_def)

lemma serviceRun_without_dataSrc:
  assumes "dataSrc (img el) = None"
  shows "snd (serviceRun loads fallback opts es el) = []
       \<and> img (fst (serviceRun loads fallback opts es el)) = img el"
  using assms
proof (induction es arbitrary: el)
  case Nil
  show ?case by simp
next
  case (Cons e es)
  from serviceStep_without_dataSrc [OF Cons.prems, of loads fallback opts e]
  have s: "snd (serviceStep loads fallback opts e el) = []"
    and i: "img (fst (serviceStep loads fallback opts e el)) = img el"
    by simp_all
  from i Cons.prems have "dataSrc (img (fst (serviceStep loads fallback opts e el))) = None"
    by simp
  from Cons.IH [OF this] s i show ?case
    by (simp add: Let_def)
qed

text \<open>
  C7. For a resource whose every attempt fails, \<open>loadImageWithRetry\<close> runs the schedule
  of the specification: exactly \<open>maxRetries\<close> calls of \<open>loadImage\<close>, with a wait of
  \<open>min (1000 * 2 ^ (k - 1)) 3000\<close> milliseconds between attempt \<open>k\<close> and attempt \<open>k + 1\<close>;
  when there is an attempt at all, the element ends with the class \<open>error\<close> and the
  fallback placeholder as its source. When the observer starts the load for an observed
  element with \<open>data-src\<close>, it removes \<open>data-src\<close>, and after that no sequence of
  \<open>observe\<close>, idle callbacks, intersections and \<open>unobserve\<close> starts another attempt or
  changes the element.
\<close>

theorem failing_image_retry_schedule:
  "snd (loadImageWithRetry (\<lambda>k. False) fallback url i maxRetries tmo)
     = specSchedule url tmo 1 maxRetries
   \<and> length (filter isLoadImage (snd (loadImageWithRetry (\<lambda>k. False) fallback url i maxRetries tmo)))
     = maxRetries
   \<and> (0 < maxRetries \<longrightarrow>
        fst (loadImageWithRetry (\<lambda>k. False) fallback url i maxRetries tmo)
          = (classListAdd ''error'' (i\<lparr>src := url\<rparr>))\<lparr>src := fallback\<rparr>)
   \<and> (observed el \<and> dataSrc (img el) = Some url \<and> url \<noteq> [] \<and> src (img el) \<noteq> url \<longrightarrow>
        snd (intersecting (\<lambda>k. False) fallback opts el)
          = specSchedule url (timeout opts) 1 (retryCount opts)
        \<and> snd (serviceRun (\<lambda>k. False) fallback opts es
                 (fst (intersecting (\<lambda>k. False) fallback opts el))) = []
        \<and> img (fst (serviceRun (\<lambda>k. False) fallback opts es
                 (fst (intersecting (\<lambda>k. False) fallback opts el))))
            = img (fst (intersecting (\<lambda>k. False) fallback opts el)))"
proof -
  have sched: "snd (loadImageWithRetry (\<lambda>k. False) fallback url j n t) = specSchedule url t 1 n"
    for j n t
    by (simp add: loadImageWithRetry_def failing_loop_schedule)
  have final: "0 < maxRetries \<longrightarrow>
        fst (loadImageWithRetry (\<lambda>k. False) fallback url i maxRetries tmo)
          = (classListAdd ''error'' (i\<lparr>src := url\<rparr>))\<lparr>src := fallback\<rparr>"
    using failing_loop_image [of 1 "maxRetries - 1" maxRetries fallback url tmo i]
    by (simp add: loadImageWithRetry_def)
  have later: "snd (intersecting (\<lambda>k. False) fallback opts el)
          = specSchedule url (timeout opts) 1 (retryCount opts)
        \<and> snd (serviceRun (\<lambda>k. False) fallback opts es
                 (fst (intersecting (\<lambda>k. False) fallback opts el))) = []
        \<and> img (fst (serviceRun (\<lambda>k. False) fallback opts es
                 (fst (intersecting (\<lambda>k. False) fallback opts el))))
            = img (fst (intersecting (\<lambda>k. False) fallback opts el))"
    if trig: "observed el \<and> dataSrc (img el) = Some url \<and> url \<noteq> [] \<and> src (img el) \<noteq> url"
  proof -
    from trig have "dataSrc (img (fst (intersecting (\<lambda>k. False) fallback opts el))) = None"
      by (simp add: intersecting_def Let_def)
    from serviceRun_without_dataSrc [OF this, of "\<lambda>k. False" fallback opts es] trig
    show ?thesis
      by (simp add: intersecting_def Let_def sched)
  qed
  from sched [of i maxRetries tmo] final later show ?thesis
    by (simp only: specSchedule_attempts) blast
qed

theorem failing_image_retry_schedule_witness:
  "snd (loadImageWithRetry (\<lambda>k. False) ''data:fallback'' ''http://h/b/a.png''
          \<lparr>src = ''data:placeholder'', dataSrc = Some ''http://h/b/a.png'', classList = []\<rparr> 3 8000)
     = [LoadImage ''http://h/b/a.png'' 8000, Sleep 1000,
        LoadImage ''http://h/b/a.png'' 8000, Sleep 2000,
        LoadImage ''http://h/b/a.png'' 8000]
   \<and> fst (loadImageWithRetry (\<lambda>k. False) ''data:fallback'' ''http://h/b/a.png''
          \<lparr>src = ''data:placeholder'', dataSrc = Some ''http://h/b/a.png'', classList = []\<rparr> 3 8000)
     = \<lparr>src = ''data:fallback'', dataSrc = Some ''http://h/b/a.png'', classList = [''error'']\<rparr>
   \<and> snd (serviceRun (\<lambda>k. False) ''data:fallback'' defaultOptions
          [Intersecting, Observe, IdleCallback, Intersecting]
          (fst (intersecting (\<lambda>k. False) ''data:fallback'' defaultOptions
             \<lparr>img = \<lparr>src = ''data:placeholder'', dataSrc = Some ''http://h/b/a.png'', classList = []\<rparr>,
              registered = True, idlePending = False, observed = True\<rparr>))) = []"
proof -
  let ?i = "\<lparr>src = ''data:placeholder'', dataSrc = Some ''http://h/b/a.png'', classList = []\<rparr>"
  let ?el = "\<lparr>img = ?i, registered = True, idlePending = False, observed = True\<rparr>"
  have pos: "(0::nat) < 3" by simp
  have trig: "observed ?el \<and> dataSrc (img ?el) = Some ''http://h/b/a.png''
      \<and> ''http://h/b/a.png'' \<noteq> [] \<and> src (img ?el) \<noteq> ''http://h/b/a.png''"
    by simp
  have sched: "specSchedule ''http://h/b/a.png'' 8000 1 3
     = [LoadImage ''http://h/b/a.png'' 8000, Sleep 1000,
        LoadImage ''http://h/b/a.png'' 8000, Sleep 2000,
        LoadImage ''http://h/b/a.png'' 8000]"
    by (simp add: numeral_3_eq_3)
  from failing_image_retry_schedule [of "''data:fallback''" "''http://h/b/a.png''" ?i 3 8000 ?el
      defaultOptions "[Intersecting, Observe, IdleCallback, Intersecting]"] pos trig sched
  show ?thesis
    by (simp add: classListAdd_def)
qed

end
